theory Spec2Isabelle
  imports Main
begin

section \<open>Documents of the three collections (server/schemas.js)\<close>

text \<open>
  Identifiers: a document's \<open>_id\<close> is its position in its collection. The server never
  deletes a document, so positions are stable and a new document gets a fresh one, as a
  new ObjectId is fresh. A Date is its time value. The Number fields hold whole numbers
  (seat counts, whole prices); the section on numbers below says which ones and how the
  routes' arithmetic rounds.
\<close>

record user_doc =
  username :: string
  email :: string
  usertype :: string
  password :: string
  approval :: string

record flight_doc =
  flightName :: string
  flightId :: string
  origin :: string
  destination :: string
  departureTime :: string
  arrivalTime :: string
  basePrice :: int
  totalSeats :: int
  journeyDate :: int
  availableSeats :: int

record passenger =
  name :: string
  age :: int

text \<open>
  A booking copies some flight fields under names the flight schema uses too; those
  copies carry the prefix \<open>bk_\<close>. \<open>bk_email\<close> is optional in the schema and the server
  fills it from \<open>req.user.email\<close>, which the token payload never has.
\<close>

record booking_doc =
  user :: nat
  flight :: nat
  bk_flightName :: string
  bk_flightId :: string
  departure :: string
  bk_destination :: string
  bk_email :: "string option"
  mobile :: string
  seats :: string
  passengers :: "passenger list"
  totalPrice :: int
  bookingDate :: int
  bk_journeyDate :: int
  journeyTime :: string
  seatClass :: string
  bookingStatus :: string

record db =
  users :: "user_doc list"
  flights :: "flight_doc list"
  bookings :: "booking_doc list"

definition empty_db :: db where
  "empty_db = \<lparr>users = [], flights = [], bookings = []\<rparr>"

definition findById :: "'a list \<Rightarrow> nat \<Rightarrow> 'a option" where
  "findById xs i = (if i < length xs then Some (xs ! i) else None)"

section \<open>Numbers\<close>

text \<open>
  A JavaScript Number is a binary64 double. A whole number is a double exactly when its
  magnitude fits 53 significant bits: every integer up to \<open>2^53\<close> in magnitude, and beyond
  that only multiples of a power of two. The operators \<open>+\<close>, \<open>-\<close> and \<open>*\<close> on doubles give
  the exact result rounded to the nearest double, a tie going to the even significand;
  \<open>round_double\<close> is that rounding on whole numbers. For a magnitude \<open>a\<close>, \<open>shift_of a\<close> is
  the number of low bits that do not fit.

  The exponent range is not modelled. The routes add or subtract \<open>passengers.length\<close> to a
  seat count, and an array has fewer than \<open>2^32\<close> elements, so that arithmetic cannot
  take a finite double to Infinity; only the product for \<open>totalPrice\<close> could, with a
  \<open>basePrice\<close> near the largest double.
\<close>

fun shift_of :: "nat \<Rightarrow> nat" where
  "shift_of a = (if a < 2 ^ 53 then 0 else Suc (shift_of (a div 2)))"

declare shift_of.simps [simp del]

definition round_nat :: "nat \<Rightarrow> nat" where
  "round_nat a =
     (let q = shift_of a; m = a div 2 ^ q; r = a mod 2 ^ q
      in if 2 ^ q < 2 * r \<or> (2 * r = 2 ^ q \<and> odd m) then (m + 1) * 2 ^ q else m * 2 ^ q)"

definition round_double :: "int \<Rightarrow> int" where
  "round_double x = (if x < 0 then - int (round_nat (nat (- x))) else int (round_nat (nat x)))"

definition is_double :: "int \<Rightarrow> bool" where
  "is_double x \<longleftrightarrow> round_double x = x"

section \<open>Schema validation\<close>

text \<open>
  \<open>save()\<close> validates a document against its schema before it writes: a field declared
  \<open>required: true\<close> must be present, and a required String must not be empty. The
  Number and ObjectId fields of the records above are always present, and a path of type
  Number holds a double: the numbers of a parsed request body are doubles, and so are the
  results of the routes' arithmetic.
\<close>

definition valid_user :: "user_doc \<Rightarrow> bool" where
  "valid_user u \<longleftrightarrow> username u \<noteq> [] \<and> email u \<noteq> [] \<and> usertype u \<noteq> [] \<and> password u \<noteq> []"

definition valid_flight :: "flight_doc \<Rightarrow> bool" where
  "valid_flight f \<longleftrightarrow> flightName f \<noteq> [] \<and> flightId f \<noteq> [] \<and> origin f \<noteq> [] \<and>
     destination f \<noteq> [] \<and> departureTime f \<noteq> [] \<and> arrivalTime f \<noteq> [] \<and>
     is_double (basePrice f) \<and> is_double (totalSeats f) \<and> is_double (availableSeats f)"

definition valid_booking :: "booking_doc \<Rightarrow> bool" where
  "valid_booking b \<longleftrightarrow> bk_flightName b \<noteq> []"

section \<open>Responses and session claims\<close>

text \<open>
  Each early \<open>return res.status(..)\<close> of the server is one error value:
  \<^item> \<open>Forbidden\<close>: 403 from \<open>adminAuth\<close>, \<open>flightOperatorAuth\<close> and the ownership checks;
  \<^item> \<open>NotFound\<close>: 404;
  \<^item> \<open>EmailExists\<close>, \<open>UsernameTaken\<close>: the two 400 answers of \<open>/register\<close> to a duplicate;
  \<^item> \<open>InvalidRole\<close>: 400 "Invalid usertype";
  \<^item> \<open>InvalidCredentials\<close>: 401 of \<open>/login\<close>;
  \<^item> \<open>OperatorNotApproved\<close>: 403 "Flight operator account is not yet approved.";
  \<^item> \<open>NotApplicable\<close>: 400 "Only flight operators can be approved/rejected.";
  \<^item> \<open>InsufficientSeats\<close>: 400 "Not enough seats available";
  \<^item> \<open>AlreadyCancelled\<close>: 400 "Booking is already cancelled.";
  \<^item> \<open>ServerError\<close>: 500 from a \<open>catch\<close> block.
\<close>

datatype error =
    Forbidden | NotFound | EmailExists | UsernameTaken | InvalidRole | InvalidCredentials
  | OperatorNotApproved | NotApplicable | InsufficientSeats | AlreadyCancelled | ServerError

text \<open>
  The payload \<open>{ user: { id, usertype, approval } }\<close> that \<open>jwt.sign\<close> encodes and
  \<open>authMiddleware\<close> attaches to the request as \<open>req.user\<close>. Signing and verification are
  the token library's; a token is its payload here.
\<close>

record claims =
  c_id :: nat
  c_usertype :: string
  c_approval :: string

definition adminAuth :: "claims \<Rightarrow> bool" where
  "adminAuth cl \<longleftrightarrow> \<not> (c_usertype cl \<noteq> ''admin'')"

definition flightOperatorAuth :: "claims \<Rightarrow> bool" where
  "flightOperatorAuth cl \<longleftrightarrow>
     \<not> (c_usertype cl \<noteq> ''flight-operator'' \<or> c_approval cl \<noteq> ''approved'')"

section \<open>Identity: /register, /login, /approve-operator, /reject-operator\<close>

text \<open>
  \<open>bcrypt.hash\<close> and \<open>bcrypt.compare\<close> are parameters of the two routes that use them.
\<close>

definition findOne :: "('a \<Rightarrow> bool) \<Rightarrow> 'a list \<Rightarrow> (nat \<times> 'a) option" where
  "findOne p xs = (case filter (\<lambda>(i, x). p x) (zip [0..<length xs] xs) of
                     [] \<Rightarrow> None | ix # _ \<Rightarrow> Some ix)"

definition register ::
  "(string \<Rightarrow> string) \<Rightarrow> string \<Rightarrow> string \<Rightarrow> string \<Rightarrow> string \<Rightarrow> db
     \<Rightarrow> (error + claims \<times> user_doc) \<times> db" where
  "register hash uname mail utype pw d =
     (if findOne (\<lambda>u. email u = mail) (users d) \<noteq> None then (Inl EmailExists, d)
      else if findOne (\<lambda>u. username u = uname) (users d) \<noteq> None then (Inl UsernameTaken, d)
      else if utype \<noteq> ''flight-operator'' \<and> utype \<noteq> ''user'' \<and> utype \<noteq> ''admin''
        then (Inl InvalidRole, d)
      else
        let appr = (if utype = ''flight-operator'' then ''not-approved'' else ''approved'');
            newUser = \<lparr>username = uname, email = mail, usertype = utype,
                       password = hash pw, approval = appr\<rparr>
        in if \<not> valid_user newUser then (Inl ServerError, d)
           else (Inr (\<lparr>c_id = length (users d), c_usertype = usertype newUser,
                        c_approval = approval newUser\<rparr>, newUser),
                 d\<lparr>users := users d @ [newUser]\<rparr>))"

definition login ::
  "(string \<Rightarrow> string \<Rightarrow> bool) \<Rightarrow> string \<Rightarrow> string \<Rightarrow> db \<Rightarrow> error + claims \<times> user_doc" where
  "login compare mail pw d =
     (case findOne (\<lambda>u. email u = mail) (users d) of
        None \<Rightarrow> Inl InvalidCredentials
      | Some (uid, u) \<Rightarrow>
          if \<not> compare pw (password u) then Inl InvalidCredentials
          else if usertype u = ''flight-operator'' \<and> approval u = ''not-approved''
            then Inl OperatorNotApproved
          else Inr (\<lparr>c_id = uid, c_usertype = usertype u, c_approval = approval u\<rparr>, u))"

definition setApproval :: "string \<Rightarrow> claims \<Rightarrow> nat \<Rightarrow> db \<Rightarrow> (error + user_doc) \<times> db" where
  "setApproval v cl uid d =
     (if \<not> adminAuth cl then (Inl Forbidden, d)
      else case findById (users d) uid of
        None \<Rightarrow> (Inl NotFound, d)
      | Some u \<Rightarrow>
          if usertype u \<noteq> ''flight-operator'' then (Inl NotApplicable, d)
          else let u' = u\<lparr>approval := v\<rparr>
               in if \<not> valid_user u' then (Inl ServerError, d)
                  else (Inr u', d\<lparr>users := list_update (users d) uid u'\<rparr>))"

definition approveOperator :: "claims \<Rightarrow> nat \<Rightarrow> db \<Rightarrow> (error + user_doc) \<times> db" where
  "approveOperator = setApproval ''approved''"

definition rejectOperator :: "claims \<Rightarrow> nat \<Rightarrow> db \<Rightarrow> (error + user_doc) \<times> db" where
  "rejectOperator = setApproval ''rejected''"

section \<open>JavaScript values the routes compute with\<close>

text \<open>
  \<open>x || y\<close> where \<open>x\<close> is a field of the request body: \<open>y\<close> when the field is absent
  (\<open>None\<close>) or falsy (the empty string, the number 0), else the field.
\<close>

definition js_or_str :: "string option \<Rightarrow> string \<Rightarrow> string" where
  "js_or_str x y = (case x of None \<Rightarrow> y | Some s \<Rightarrow> if s = [] then y else s)"

definition js_or_num :: "int option \<Rightarrow> int \<Rightarrow> int" where
  "js_or_num x y = (case x of None \<Rightarrow> y | Some n \<Rightarrow> if n = 0 then y else n)"

text \<open>The result of \<open>new Date(v)\<close>: a time value, or Invalid Date.\<close>

datatype jsdate = Date int | InvalidDate

text \<open>
  The flight fields of a request body, each possibly missing. \<open>rq_journeyDate\<close> is
  \<open>None\<close> when the body's \<open>journeyDate\<close> is undefined (for \<open>/update-flight\<close>: falsy), and
  otherwise holds what \<open>new Date(journeyDate)\<close> evaluates to.
\<close>

record flight_body =
  rq_flightName :: "string option"
  rq_flightId :: "string option"
  rq_origin :: "string option"
  rq_destination :: "string option"
  rq_departureTime :: "string option"
  rq_arrivalTime :: "string option"
  rq_basePrice :: "int option"
  rq_totalSeats :: "int option"
  rq_journeyDate :: "jsdate option"

text \<open>
  What a property read on an object literal can give, and how a template literal prints
  it. A key the literal does not define is looked up on \<open>Object.prototype\<close>: its built-in
  methods are native functions, \<open>__proto__\<close> is the prototype object itself, and any
  other key is \<open>undefined\<close>.
\<close>

datatype jsval = Undefined | Str string | NativeFunction string | ObjectPrototype

definition object_prototype_methods :: "string list" where
  "object_prototype_methods =
     [''constructor'', ''hasOwnProperty'', ''isPrototypeOf'', ''propertyIsEnumerable'',
      ''toLocaleString'', ''toString'', ''valueOf'', ''__defineGetter__'',
      ''__defineSetter__'', ''__lookupGetter__'', ''__lookupSetter__'']"

definition object_prototype_get :: "string \<Rightarrow> jsval" where
  "object_prototype_get k =
     (if k = ''__proto__'' then ObjectPrototype
      else if k = ''constructor'' then NativeFunction ''Object''
      else if k \<in> set object_prototype_methods then NativeFunction k
      else Undefined)"

fun template :: "jsval \<Rightarrow> string" where
  "template Undefined = ''undefined''"
| "template (Str s) = s"
| "template (NativeFunction f) = ''function '' @ f @ ''() { [native code] }''"
| "template ObjectPrototype = ''[object Object]''"

definition digit_char :: "nat \<Rightarrow> char" where
  "digit_char k = ''0123456789'' ! k"

fun string_of_nat :: "nat \<Rightarrow> string" where
  "string_of_nat n =
     (if n < 10 then [digit_char n] else string_of_nat (n div 10) @ [digit_char (n mod 10)])"

declare string_of_nat.simps [simp del]

fun join :: "string \<Rightarrow> string list \<Rightarrow> string" where
  "join sep [] = []"
| "join sep [x] = x"
| "join sep (x # y # ys) = x @ sep @ join sep (y # ys)"

section \<open>Flight catalog: /add-flight, /update-flight\<close>

text \<open>
  The document that \<open>new Flight({...})\<close> builds in \<open>/add-flight\<close>, when every path has a
  value and \<open>new Date(journeyDate)\<close> is a date; \<open>None\<close> when \<open>save()\<close> would reject it for a
  missing required path or an invalid date.
\<close>

definition newFlight :: "flight_body \<Rightarrow> flight_doc option" where
  "newFlight body =
     (case rq_flightName body of None \<Rightarrow> None | Some fname \<Rightarrow>
      case rq_flightId body of None \<Rightarrow> None | Some fcode \<Rightarrow>
      case rq_origin body of None \<Rightarrow> None | Some orig \<Rightarrow>
      case rq_destination body of None \<Rightarrow> None | Some dest \<Rightarrow>
      case rq_departureTime body of None \<Rightarrow> None | Some dep \<Rightarrow>
      case rq_arrivalTime body of None \<Rightarrow> None | Some arr \<Rightarrow>
      case rq_basePrice body of None \<Rightarrow> None | Some bp \<Rightarrow>
      case rq_totalSeats body of None \<Rightarrow> None | Some ts \<Rightarrow>
      case rq_journeyDate body of
        Some (Date jd) \<Rightarrow>
          Some \<lparr>flightName = fname, flightId = fcode, origin = orig, destination = dest,
                departureTime = dep, arrivalTime = arr, basePrice = bp,
                totalSeats = ts, journeyDate = jd, availableSeats = ts\<rparr>
      | _ \<Rightarrow> None)"

definition addFlight :: "claims \<Rightarrow> flight_body \<Rightarrow> db \<Rightarrow> (error + flight_doc) \<times> db" where
  "addFlight cl body d =
     (if \<not> flightOperatorAuth cl then (Inl Forbidden, d)
      else case newFlight body of
        None \<Rightarrow> (Inl ServerError, d)
      | Some fl \<Rightarrow>
          if \<not> valid_flight fl then (Inl ServerError, d)
          else (Inr fl, d\<lparr>flights := flights d @ [fl]\<rparr>))"

text \<open>
  Each \<open>flight.x = x || flight.x\<close> keeps the stored value when the body's value is missing
  or falsy; \<open>availableSeats\<close> is not assigned.
\<close>

definition updateFlight ::
  "claims \<Rightarrow> nat \<Rightarrow> flight_body \<Rightarrow> db \<Rightarrow> (error + flight_doc) \<times> db" where
  "updateFlight cl fid body d =
     (if \<not> flightOperatorAuth cl then (Inl Forbidden, d)
      else case findById (flights d) fid of
        None \<Rightarrow> (Inl NotFound, d)
      | Some fl \<Rightarrow>
          let fl1 = fl\<lparr>flightName := js_or_str (rq_flightName body) (flightName fl),
                       flightId := js_or_str (rq_flightId body) (flightId fl),
                       origin := js_or_str (rq_origin body) (origin fl),
                       destination := js_or_str (rq_destination body) (destination fl),
                       departureTime := js_or_str (rq_departureTime body) (departureTime fl),
                       arrivalTime := js_or_str (rq_arrivalTime body) (arrivalTime fl),
                       basePrice := js_or_num (rq_basePrice body) (basePrice fl),
                       totalSeats := js_or_num (rq_totalSeats body) (totalSeats fl)\<rparr>
          in case rq_journeyDate body of
               Some InvalidDate \<Rightarrow> (Inl ServerError, d)
             | jd \<Rightarrow>
                 let fl2 = (case jd of Some (Date t) \<Rightarrow> fl1\<lparr>journeyDate := t\<rparr> | _ \<Rightarrow> fl1)
                 in if \<not> valid_flight fl2 then (Inl ServerError, d)
                    else (Inr fl2, d\<lparr>flights := list_update (flights d) fid fl2\<rparr>))"

section \<open>Booking engine: /book-ticket, /cancel-ticket/:id\<close>

text \<open>
  A \<open>/book-ticket\<close> request after \<open>authMiddleware\<close>: \<open>req.user\<close>, the body fields the
  route reads (\<open>passengers\<close> an array, \<open>seatClass\<close> a string, \<open>mobile\<close> possibly missing),
  and the clock reading that \<open>new Date()\<close> returns for \<open>bookingDate\<close>.
\<close>

record book_req =
  req_user :: claims
  req_flightId :: nat
  req_passengers :: "passenger list"
  req_seatClass :: string
  req_mobile :: "string option"
  req_now :: int

text \<open>
  The lookup \<open>seatCode[seatClass]\<close> in the object literal
  \<open>{ 'economy': 'E', 'premium-economy': 'P', 'business': 'B', 'first-class': 'A' }\<close>.
\<close>

definition seatCode :: "string \<Rightarrow> jsval" where
  "seatCode k =
     (if k = ''economy'' then Str ''E''
      else if k = ''premium-economy'' then Str ''P''
      else if k = ''business'' then Str ''B''
      else if k = ''first-class'' then Str ''A''
      else object_prototype_get k)"

text \<open>
  \<open>Booking.find({ flight: flightId, seatClass: seatClass })\<close>, the \<open>reduce\<close> over its
  result, and the loop that pushes one code per passenger. The query has no condition on
  \<open>bookingStatus\<close>.
\<close>

definition existingBookingsInClass :: "booking_doc list \<Rightarrow> nat \<Rightarrow> string \<Rightarrow> booking_doc list" where
  "existingBookingsInClass bs fid c = filter (\<lambda>b. flight b = fid \<and> seatClass b = c) bs"

definition numBookedSeatsInClass :: "booking_doc list \<Rightarrow> nat \<Rightarrow> string \<Rightarrow> nat" where
  "numBookedSeatsInClass bs fid c =
     foldl (\<lambda>acc booking. acc + length (passengers booking)) 0 (existingBookingsInClass bs fid c)"

definition seatsAssigned :: "jsval \<Rightarrow> nat \<Rightarrow> nat \<Rightarrow> string list" where
  "seatsAssigned coachPrefix numBooked numSeatsToBook =
     map (\<lambda>i. template coachPrefix @ ''-'' @ string_of_nat (numBooked + i + 1))
         [0..<numSeatsToBook]"

definition newBooking :: "book_req \<Rightarrow> flight_doc \<Rightarrow> booking_doc list \<Rightarrow> booking_doc" where
  "newBooking r fl bs =
     (let numSeatsToBook = length (req_passengers r);
          numBooked = numBookedSeatsInClass bs (req_flightId r) (req_seatClass r);
          coachPrefix = seatCode (req_seatClass r)
      in \<lparr>user = c_id (req_user r),
          flight = req_flightId r,
          bk_flightName = flightName fl,
          bk_flightId = flightId fl,
          departure = departureTime fl,
          bk_destination = destination fl,
          bk_email = None,
          mobile = js_or_str (req_mobile r) ''N/A'',
          seats = join '', '' (seatsAssigned coachPrefix numBooked numSeatsToBook),
          passengers = req_passengers r,
          totalPrice = round_double (int numSeatsToBook * basePrice fl),
          bookingDate = req_now r,
          bk_journeyDate = journeyDate fl,
          journeyTime = departureTime fl,
          seatClass = req_seatClass r,
          bookingStatus = ''confirmed''\<rparr>)"

text \<open>
  The route body. The booking is saved first and the flight second; each \<open>save()\<close> can
  throw on validation, which the \<open>catch\<close> block answers with 500, and a throw of the
  second one leaves the saved booking in the store.
\<close>

definition bookTicket :: "book_req \<Rightarrow> db \<Rightarrow> (error + booking_doc) \<times> db" where
  "bookTicket r d =
     (case findById (flights d) (req_flightId r) of
        None \<Rightarrow> (Inl NotFound, d)
      | Some fl \<Rightarrow>
          let numSeatsToBook = length (req_passengers r)
          in if availableSeats fl < int numSeatsToBook then (Inl InsufficientSeats, d)
             else
               let b = newBooking r fl (bookings d)
               in if \<not> valid_booking b then (Inl ServerError, d)
                  else
                    let d1 = d\<lparr>bookings := bookings d @ [b]\<rparr>;
                        fl' = fl\<lparr>availableSeats :=
                                   round_double (availableSeats fl - int numSeatsToBook)\<rparr>
                    in if \<not> valid_flight fl' then (Inl ServerError, d1)
                       else (Inr b, d1\<lparr>flights := list_update (flights d1) (req_flightId r) fl'\<rparr>))"

text \<open>
  The booking is saved as cancelled first; the seats go back to the flight only if the
  flight is found.
\<close>

definition cancelTicket :: "claims \<Rightarrow> nat \<Rightarrow> db \<Rightarrow> (error + booking_doc) \<times> db" where
  "cancelTicket cl bookingId d =
     (case findById (bookings d) bookingId of
        None \<Rightarrow> (Inl NotFound, d)
      | Some b \<Rightarrow>
          if user b \<noteq> c_id cl \<and> c_usertype cl \<noteq> ''admin'' then (Inl Forbidden, d)
          else if bookingStatus b = ''cancelled'' then (Inl AlreadyCancelled, d)
          else
            let b' = b\<lparr>bookingStatus := ''cancelled''\<rparr>
            in if \<not> valid_booking b' then (Inl ServerError, d)
               else
                 let d1 = d\<lparr>bookings := list_update (bookings d) bookingId b'\<rparr>
                 in case findById (flights d1) (flight b') of
                      None \<Rightarrow> (Inr b', d1)
                    | Some fl \<Rightarrow>
                        let fl' = fl\<lparr>availableSeats :=
                                       round_double
                                         (availableSeats fl + int (length (passengers b')))\<rparr>
                        in if \<not> valid_flight fl' then (Inl ServerError, d1)
                           else (Inr b', d1\<lparr>flights := list_update (flights d1) (flight b') fl'\<rparr>))"

section \<open>Sequences of requests\<close>

datatype op =
    AddFlight claims flight_body
  | UpdateFlight claims nat flight_body
  | BookTicket book_req
  | CancelTicket claims nat

fun apply_op :: "op \<Rightarrow> db \<Rightarrow> db" where
  "apply_op (AddFlight cl body) d = snd (addFlight cl body d)"
| "apply_op (UpdateFlight cl fid body) d = snd (updateFlight cl fid body d)"
| "apply_op (BookTicket r) d = snd (bookTicket r d)"
| "apply_op (CancelTicket cl bookingId) d = snd (cancelTicket cl bookingId d)"

fun run :: "op list \<Rightarrow> db \<Rightarrow> db" where
  "run [] d = d"
| "run (x # xs) d = run xs (apply_op x d)"

text \<open>Booking requests served one after another, each to completion.\<close>

fun book_seq :: "book_req list \<Rightarrow> db \<Rightarrow> (error + booking_doc) list \<times> db" where
  "book_seq [] d = ([], d)"
| "book_seq (r # rs) d =
     (case bookTicket r d of (res, d1) \<Rightarrow>
        (case book_seq rs d1 of (ress, d2) \<Rightarrow> (res # ress, d2)))"

section \<open>Example data\<close>

definition demo_flight :: "int \<Rightarrow> int \<Rightarrow> flight_doc" where
  "demo_flight cap avail =
     \<lparr>flightName = ''Sky One'', flightId = ''AA123'', origin = ''DEL'', destination = ''BOM'',
      departureTime = ''10:00 AM'', arrivalTime = ''06:00 PM'', basePrice = 100,
      totalSeats = cap, journeyDate = 0, availableSeats = avail\<rparr>"

definition demo_db :: "int \<Rightarrow> int \<Rightarrow> db" where
  "demo_db cap avail = \<lparr>users = [], flights = [demo_flight cap avail], bookings = []\<rparr>"

definition traveler :: claims where
  "traveler = \<lparr>c_id = 0, c_usertype = ''user'', c_approval = ''approved''\<rparr>"

definition operator :: claims where
  "operator = \<lparr>c_id = 1, c_usertype = ''flight-operator'', c_approval = ''approved''\<rparr>"

definition admin :: claims where
  "admin = \<lparr>c_id = 2, c_usertype = ''admin'', c_approval = ''approved''\<rparr>"

definition demo_req :: "nat \<Rightarrow> string \<Rightarrow> book_req" where
  "demo_req n c =
     \<lparr>req_user = traveler, req_flightId = 0,
      req_passengers = replicate n \<lparr>name = ''Asha'', age = 30\<rparr>,
      req_seatClass = c, req_mobile = None, req_now = 0\<rparr>"

definition demo_body :: "int \<Rightarrow> flight_body" where
  "demo_body cap =
     \<lparr>rq_flightName = Some ''Sky One'', rq_flightId = Some ''AA123'', rq_origin = Some ''DEL'',
      rq_destination = Some ''BOM'', rq_departureTime = Some ''10:00 AM'',
      rq_arrivalTime = Some ''06:00 PM'', rq_basePrice = Some 100,
      rq_totalSeats = Some cap, rq_journeyDate = Some (Date 0)\<rparr>"

definition no_change :: flight_body where
  "no_change =
     \<lparr>rq_flightName = None, rq_flightId = None, rq_origin = None, rq_destination = None,
      rq_departureTime = None, rq_arrivalTime = None, rq_basePrice = None,
      rq_totalSeats = None, rq_journeyDate = None\<rparr>"

definition demo_hash :: "string \<Rightarrow> string" where
  "demo_hash pw = ''$2b$10$'' @ pw"

definition demo_compare :: "string \<Rightarrow> string \<Rightarrow> bool" where
  "demo_compare pw h \<longleftrightarrow> h = demo_hash pw"

text \<open>A flight operator registers and an administrator rejects the account.\<close>

definition rejected_db :: db where
  "rejected_db =
     snd (rejectOperator admin 0
       (snd (register demo_hash ''opal'' ''opal@air.io'' ''flight-operator'' ''secret'' empty_db)))"

text \<open>Three economy seats booked on a flight of ten.\<close>

definition booked_db :: db where
  "booked_db = snd (bookTicket (demo_req 3 ''economy'') (demo_db 10 10))"

section \<open>Derived descriptions used in the proofs\<close>

text \<open>The document \<open>/update-flight\<close> saves when the save goes through.\<close>

definition patched :: "flight_body \<Rightarrow> flight_doc \<Rightarrow> flight_doc" where
  "patched body fl =
     fl\<lparr>flightName := js_or_str (rq_flightName body) (flightName fl),
        flightId := js_or_str (rq_flightId body) (flightId fl),
        origin := js_or_str (rq_origin body) (origin fl),
        destination := js_or_str (rq_destination body) (destination fl),
        departureTime := js_or_str (rq_departureTime body) (departureTime fl),
        arrivalTime := js_or_str (rq_arrivalTime body) (arrivalTime fl),
        basePrice := js_or_num (rq_basePrice body) (basePrice fl),
        totalSeats := js_or_num (rq_totalSeats body) (totalSeats fl),
        journeyDate := (case rq_journeyDate body of Some (Date t) \<Rightarrow> t | _ \<Rightarrow> journeyDate fl)\<rparr>"

text \<open>
  The seat-code rule in the specification's words: the codes of a booking of \<open>n\<close> seats
  are \<open>prefix-(priorCount+1)\<close> through \<open>prefix-(priorCount+n)\<close>, where \<open>priorCount\<close> sums
  the passenger counts of all bookings of the flight and class, cancelled ones included.
\<close>

definition spec_priorCount :: "booking_doc list \<Rightarrow> nat \<Rightarrow> string \<Rightarrow> nat" where
  "spec_priorCount bs f c =
     sum_list (map (\<lambda>b. length (passengers b)) (filter (\<lambda>b. flight b = f \<and> seatClass b = c) bs))"

definition spec_codes :: "string \<Rightarrow> nat \<Rightarrow> nat \<Rightarrow> string list" where
  "spec_codes prefix priorCount n =
     map (\<lambda>k. prefix @ ''-'' @ string_of_nat k) [priorCount + 1 ..< priorCount + n + 1]"

text \<open>
  Two economy seats are booked on a flight of ten, the booking is cancelled, and one more
  economy seat is booked.
\<close>

definition rebooked :: "(error + booking_doc) \<times> db" where
  "rebooked = bookTicket (demo_req 1 ''economy'')
     (run [CancelTicket traveler 0] (snd (bookTicket (demo_req 2 ''economy'') (demo_db 10 10))))"

section \<open>The seat-count invariant\<close>

text \<open>
  Requests under which capacity is kept: a flight is added with a capacity that is not
  negative and at most \<open>2^53\<close>, up to which every whole number is a double, and an update
  does not lower \<open>totalSeats\<close> (it leaves the field out, sends the falsy 0, or sends a
  value that is at least the stored one).
\<close>

fun admissible :: "op \<Rightarrow> db \<Rightarrow> bool" where
  "admissible (AddFlight cl body) d =
     (case rq_totalSeats body of None \<Rightarrow> True | Some t \<Rightarrow> 0 \<le> t \<and> t \<le> 2 ^ 53)"
| "admissible (UpdateFlight cl fid body) d =
     (case findById (flights d) fid of
        None \<Rightarrow> True
      | Some fl \<Rightarrow> (case rq_totalSeats body of None \<Rightarrow> True | Some t \<Rightarrow> t = 0 \<or> totalSeats fl \<le> t))"
| "admissible (BookTicket r) d = True"
| "admissible (CancelTicket cl bookingId) d = True"

fun admissible_run :: "op list \<Rightarrow> db \<Rightarrow> bool" where
  "admissible_run [] d = True"
| "admissible_run (x # xs) d = (admissible x d \<and> admissible_run xs (apply_op x d))"

text \<open>The seats of a flight held by bookings that are not cancelled.\<close>

definition confirmedSeats :: "booking_doc list \<Rightarrow> nat \<Rightarrow> int" where
  "confirmedSeats bs fid =
     sum_list (map (\<lambda>b. if flight b = fid \<and> bookingStatus b \<noteq> ''cancelled''
                          then int (length (passengers b)) else 0) bs)"

definition seats_inv :: "db \<Rightarrow> bool" where
  "seats_inv d \<longleftrightarrow>
     (\<forall>fl \<in> set (flights d). valid_flight fl \<and> 0 \<le> availableSeats fl) \<and>
     (\<forall>fid < length (flights d).
        availableSeats (flights d ! fid) + confirmedSeats (bookings d) fid
          \<le> totalSeats (flights d ! fid) \<and>
        availableSeats (flights d ! fid) + confirmedSeats (bookings d) fid \<le> 2 ^ 53) \<and>
     (\<forall>b \<in> set (bookings d). flight b < length (flights d) \<and> valid_booking b)"

text \<open>A flight of ten seats is added and its capacity is then lowered to five.\<close>

definition shrunk_db :: db where
  "shrunk_db =
     run [AddFlight operator (demo_body 10),
          UpdateFlight operator 0 (no_change\<lparr>rq_totalSeats := Some 5\<rparr>)] empty_db"

text \<open>
  A flight of ten seats is added, three seats are booked and cancelled again, and the
  capacity is raised to twelve.
\<close>

definition demo_ops :: "op list" where
  "demo_ops =
     [AddFlight operator (demo_body 10), BookTicket (demo_req 3 ''economy''),
      CancelTicket traveler 0, UpdateFlight operator 0 (no_change\<lparr>rq_totalSeats := Some 12\<rparr>)]"

section \<open>Bookings served concurrently\<close>

text \<open>
  The \<open>/book-ticket\<close> handler is an \<open>async\<close> function with four \<open>await\<close>s, each a store
  operation: \<open>Flight.findById\<close>, \<open>Booking.find\<close>, \<open>newBooking.save()\<close> and \<open>flight.save()\<close>.
  Between two of them the handler runs without interruption; at each of them another
  request's handler may run. A \<open>book_handler\<close> is a handler at one of these points,
  holding the values of its local variables: the flight document as it was loaded and,
  later, the booking it has built. \<open>flight.save()\<close> validates the local document and
  writes the path the handler assigned, \<open>availableSeats\<close>, to the stored flight.
\<close>

datatype book_handler =
    AtFindFlight book_req
  | AtFindBookings book_req flight_doc
  | AtSaveBooking book_req flight_doc booking_doc
  | AtSaveFlight book_req flight_doc booking_doc
  | Responded "error + booking_doc"

fun book_step :: "book_handler \<Rightarrow> db \<Rightarrow> book_handler \<times> db" where
  "book_step (AtFindFlight r) d =
     (case findById (flights d) (req_flightId r) of
        None \<Rightarrow> (Responded (Inl NotFound), d)
      | Some fl \<Rightarrow>
          if availableSeats fl < int (length (req_passengers r))
          then (Responded (Inl InsufficientSeats), d)
          else (AtFindBookings r fl, d))"
| "book_step (AtFindBookings r fl) d = (AtSaveBooking r fl (newBooking r fl (bookings d)), d)"
| "book_step (AtSaveBooking r fl b) d =
     (if \<not> valid_booking b then (Responded (Inl ServerError), d)
      else (AtSaveFlight r fl b, d\<lparr>bookings := bookings d @ [b]\<rparr>))"
| "book_step (AtSaveFlight r fl b) d =
     (let fl' = fl\<lparr>availableSeats :=
                     round_double (availableSeats fl - int (length (req_passengers r)))\<rparr>
      in if \<not> valid_flight fl' then (Responded (Inl ServerError), d)
         else case findById (flights d) (req_flightId r) of
                None \<Rightarrow> (Responded (Inl ServerError), d)
              | Some stored \<Rightarrow>
                  (Responded (Inr b),
                   d\<lparr>flights := list_update (flights d) (req_flightId r)
                                   (stored\<lparr>availableSeats := availableSeats fl'\<rparr>)\<rparr>))"
| "book_step (Responded res) d = (Responded res, d)"

text \<open>
  A schedule names, step by step, the handler that runs next; a handler that has
  responded stays as it is.
\<close>

fun interleave :: "nat list \<Rightarrow> book_handler list \<times> db \<Rightarrow> book_handler list \<times> db" where
  "interleave [] s = s"
| "interleave (i # sched) (ts, d) =
     (if i < length ts
      then case book_step (ts ! i) d of (t', d') \<Rightarrow> interleave sched (list_update ts i t', d')
      else interleave sched (ts, d))"

text \<open>
  Two travelers each ask for one economy seat on a flight with one seat left, and the
  two handlers take turns at every \<open>await\<close>.
\<close>

definition race_handlers :: "book_handler list" where
  "race_handlers =
     [AtFindFlight (demo_req 1 ''economy''),
      AtFindFlight ((demo_req 1 ''economy'')\<lparr>req_user := traveler\<lparr>c_id := 3\<rparr>\<rparr>)]"

definition race_schedule :: "nat list" where
  "race_schedule = [0, 1, 0, 1, 0, 1, 0, 1]"

text \<open>Three travelers, one after another, each ask for one economy seat.\<close>

definition demo_calls :: "book_req list" where
  "demo_calls =
     [demo_req 1 ''economy'',
      (demo_req 1 ''economy'')\<lparr>req_user := traveler\<lparr>c_id := 3\<rparr>\<rparr>,
      (demo_req 1 ''economy'')\<lparr>req_user := traveler\<lparr>c_id := 4\<rparr>\<rparr>]"

text \<open>
  The same two handlers on a flight with all ten seats free: seats are plentiful and the
  two bookings still take turns at every \<open>await\<close>.
\<close>

definition roomy_race :: "book_handler list \<times> db" where
  "roomy_race = interleave race_schedule (race_handlers, demo_db 10 10)"

section \<open>Cancellations served concurrently\<close>

text \<open>
  The \<open>/cancel-ticket/:id\<close> handler has four \<open>await\<close>s as well: \<open>Booking.findById\<close>,
  \<open>booking.save()\<close>, \<open>Flight.findById\<close> and \<open>flight.save()\<close>. A \<open>cancel_handler\<close> is a
  handler at one of them with its local booking (status already set to \<open>cancelled\<close>) and,
  at the last one, its local flight (seats already added). Each \<open>save()\<close> validates the
  local document and writes the path the handler assigned.
\<close>

datatype cancel_handler =
    AtFindBooking claims nat
  | AtSaveCancelled nat booking_doc
  | AtFindFlightOf booking_doc
  | AtRestoreSeats booking_doc flight_doc
  | Answered "error + booking_doc"

fun cancel_step :: "cancel_handler \<Rightarrow> db \<Rightarrow> cancel_handler \<times> db" where
  "cancel_step (AtFindBooking cl bookingId) d =
     (case findById (bookings d) bookingId of
        None \<Rightarrow> (Answered (Inl NotFound), d)
      | Some b \<Rightarrow>
          if user b \<noteq> c_id cl \<and> c_usertype cl \<noteq> ''admin'' then (Answered (Inl Forbidden), d)
          else if bookingStatus b = ''cancelled'' then (Answered (Inl AlreadyCancelled), d)
          else (AtSaveCancelled bookingId (b\<lparr>bookingStatus := ''cancelled''\<rparr>), d))"
| "cancel_step (AtSaveCancelled bookingId b') d =
     (if \<not> valid_booking b' then (Answered (Inl ServerError), d)
      else case findById (bookings d) bookingId of
             None \<Rightarrow> (Answered (Inl ServerError), d)
           | Some stored \<Rightarrow>
               (AtFindFlightOf b',
                d\<lparr>bookings := list_update (bookings d) bookingId
                                  (stored\<lparr>bookingStatus := bookingStatus b'\<rparr>)\<rparr>))"
| "cancel_step (AtFindFlightOf b') d =
     (case findById (flights d) (flight b') of
        None \<Rightarrow> (Answered (Inr b'), d)
      | Some fl \<Rightarrow>
          (AtRestoreSeats b'
             (fl\<lparr>availableSeats :=
                   round_double (availableSeats fl + int (length (passengers b')))\<rparr>), d))"
| "cancel_step (AtRestoreSeats b' fl') d =
     (if \<not> valid_flight fl' then (Answered (Inl ServerError), d)
      else case findById (flights d) (flight b') of
             None \<Rightarrow> (Answered (Inl ServerError), d)
           | Some stored \<Rightarrow>
               (Answered (Inr b'),
                d\<lparr>flights := list_update (flights d) (flight b')
                                 (stored\<lparr>availableSeats := availableSeats fl'\<rparr>)\<rparr>))"
| "cancel_step (Answered res) d = (Answered res, d)"

fun interleave_cancel ::
  "nat list \<Rightarrow> cancel_handler list \<times> db \<Rightarrow> cancel_handler list \<times> db" where
  "interleave_cancel [] s = s"
| "interleave_cancel (i # sched) (ts, d) =
     (if i < length ts
      then case cancel_step (ts ! i) d of
             (t', d') \<Rightarrow> interleave_cancel sched (list_update ts i t', d')
      else interleave_cancel sched (ts, d))"

text \<open>
  The traveler sends the cancellation of the booking in \<open>booked_db\<close> twice; the second
  handler loads the booking before the first has saved it.
\<close>

definition cancel_twice :: "cancel_handler list \<times> db" where
  "cancel_twice =
     interleave_cancel [0, 1, 0, 0, 0, 1, 1, 1]
       ([AtFindBooking traveler 0, AtFindBooking traveler 0], booked_db)"

section \<open>Seat counts above the safe range\<close>

text \<open>
  A flight is added with \<open>2^53 + 2\<close> seats and one economy seat is booked; the stored
  \<open>availableSeats\<close> is then \<open>2^53\<close>, since \<open>2^53 + 1\<close> is not a double.
\<close>

definition brim_db :: db where
  "brim_db =
     run [AddFlight operator (demo_body (2 ^ 53 + 2)), BookTicket (demo_req 1 ''economy'')]
         empty_db"

text \<open>A flight is added with \<open>2^53 + 6\<close> seats; three seats are booked and cancelled.\<close>

definition brim_ops :: "op list" where
  "brim_ops =
     [AddFlight operator (demo_body (2 ^ 53 + 6)), BookTicket (demo_req 3 ''economy''),
      CancelTicket traveler 0]"

section \<open>Rounding to a double\<close>

lemma shift_of_small: "a < 2 ^ 53 \<Longrightarrow> shift_of a = 0"
  by (simp add: shift_of.simps)

lemma shift_of_big: "\<not> a < 2 ^ 53 \<Longrightarrow> shift_of a = Suc (shift_of (a div 2))"
  by (simp add: shift_of.simps)

lemma shift_of_upper: "a div 2 ^ shift_of a < 2 ^ 53"
proof (induction a rule: shift_of.induct)
  case (1 a)
  show ?case
  proof (cases "a < 2 ^ 53")
    case True
    then show ?thesis by (simp add: shift_of_small)
  next
    case False
    have "a div 2 ^ Suc (shift_of (a div 2)) = (a div 2) div 2 ^ shift_of (a div 2)"
      by (simp add: div_mult2_eq)
    then show ?thesis using "1.IH"[OF False] by (simp add: shift_of_big[OF False])
  qed
qed

lemma shift_of_lower: "\<not> a < 2 ^ 53 \<Longrightarrow> 2 ^ 52 \<le> a div 2 ^ shift_of a"
proof (induction a rule: shift_of.induct)
  case (1 a)
  have eq: "a div 2 ^ shift_of a = (a div 2) div 2 ^ shift_of (a div 2)"
    by (simp add: shift_of_big[OF "1.prems"] div_mult2_eq)
  show ?case
  proof (cases "a div 2 < 2 ^ 53")
    case True
    then show ?thesis using "1.prems" by (simp add: eq shift_of_small)
  next
    case False
    then show ?thesis using "1.IH"[OF "1.prems" False] by (simp add: eq)
  qed
qed

lemma shift_of_scaled:
  assumes "2 ^ 52 \<le> m" and "m < 2 ^ 53"
  shows "shift_of (m * 2 ^ q) = q"
proof (induction q)
  case 0
  then show ?case using assms by (simp add: shift_of_small)
next
  case (Suc q)
  have "\<not> m * 2 ^ Suc q < 2 ^ 53"
  proof -
    have "(2::nat) ^ 52 * 2 \<le> m * 2 ^ Suc q"
      using assms(1) by (intro mult_le_mono) simp_all
    then show ?thesis by simp
  qed
  then show ?case using Suc by (simp add: shift_of_big)
qed

lemma round_nat_small: "a < 2 ^ 53 \<Longrightarrow> round_nat a = a"
  by (simp add: round_nat_def shift_of_small)

lemma round_nat_scaled:
  assumes "2 ^ 52 \<le> m" and "m < 2 ^ 53"
  shows "round_nat (m * 2 ^ q) = m * 2 ^ q"
  by (simp add: round_nat_def shift_of_scaled[OF assms])

lemma round_nat_idem: "round_nat (round_nat a) = round_nat a"
proof (cases "a < 2 ^ 53")
  case True
  then show ?thesis by (simp add: round_nat_small)
next
  case False
  let ?q = "shift_of a"
  let ?m = "a div 2 ^ ?q"
  have lo: "2 ^ 52 \<le> ?m" and hi: "?m < 2 ^ 53"
    using shift_of_lower[OF False] shift_of_upper[of a] by simp_all
  have "round_nat a = ?m * 2 ^ ?q \<or> round_nat a = (?m + 1) * 2 ^ ?q"
    by (simp add: round_nat_def Let_def)
  then show ?thesis
  proof
    assume "round_nat a = ?m * 2 ^ ?q"
    then show ?thesis by (simp add: round_nat_scaled[OF lo hi])
  next
    assume r: "round_nat a = (?m + 1) * 2 ^ ?q"
    show ?thesis
    proof (cases "?m + 1 < 2 ^ 53")
      case True
      have "2 ^ 52 \<le> ?m + 1" using lo by simp
      then have "round_nat ((?m + 1) * 2 ^ ?q) = (?m + 1) * 2 ^ ?q"
        using True by (rule round_nat_scaled)
      then show ?thesis by (simp only: r)
    next
      case False
      with hi have "?m + 1 = 2 ^ 53" by simp
      then have e: "(?m + 1) * 2 ^ ?q = 2 ^ 52 * 2 ^ Suc ?q" by simp
      have "round_nat (2 ^ 52 * 2 ^ Suc ?q) = 2 ^ 52 * 2 ^ Suc ?q"
        by (rule round_nat_scaled) simp_all
      then show ?thesis by (simp only: r e)
    qed
  qed
qed

lemma round_nat_zero_iff: "round_nat a = 0 \<longleftrightarrow> a = 0"
proof (cases "a < 2 ^ 53")
  case True
  then show ?thesis by (simp add: round_nat_small)
next
  case False
  have "2 ^ 52 \<le> a div 2 ^ shift_of a"
    by (rule shift_of_lower[OF False])
  then have "0 < a div 2 ^ shift_of a"
    by (simp add: order_less_le_trans[of 0 "2 ^ 52"])
  then have "round_nat a \<noteq> 0"
    by (simp add: round_nat_def Let_def)
  then show ?thesis using False by auto
qed

lemma round_double_idem: "round_double (round_double x) = round_double x"
  by (auto simp: round_double_def round_nat_idem round_nat_zero_iff)

lemma round_double_safe [simp]: "\<bar>x\<bar> \<le> 2 ^ 53 \<Longrightarrow> round_double x = x"
proof -
  assume a: "\<bar>x\<bar> \<le> 2 ^ 53"
  have top: "round_nat (2 ^ 53) = 2 ^ 53"
    using round_nat_scaled[of "2 ^ 52" 1] by simp
  have "round_nat (nat \<bar>x\<bar>) = nat \<bar>x\<bar>"
  proof (cases "nat \<bar>x\<bar> < 2 ^ 53")
    case True
    then show ?thesis by (rule round_nat_small)
  next
    case False
    with a have "nat \<bar>x\<bar> = 2 ^ 53" by (simp add: nat_le_iff)  
    then show ?thesis using top by simp
  qed
  then show ?thesis
    by (cases "x < 0") (simp_all add: round_double_def)
qed

lemma is_double_round [simp]: "is_double (round_double x)"
  by (simp add: is_double_def round_double_idem)

lemma is_double_safe [simp]: "\<bar>x\<bar> \<le> 2 ^ 53 \<Longrightarrow> is_double x"
  by (simp add: is_double_def round_double_safe)

lemma round_double_zero [simp]: "round_double 0 = 0"
  by (rule round_double_safe) simp

lemma round_double_above_safe_range:
  "round_double (2 ^ 53 + 1) = 2 ^ 53" "round_double (2 ^ 53 + 3) = 2 ^ 53 + 4"
  "round_double (2 ^ 53 + 7) = 2 ^ 53 + 8"
  by (simp_all add: round_double_def round_nat_def shift_of.simps Let_def)

lemma is_double_above_safe_range:
  "is_double (2 ^ 53 + 2)" "is_double (2 ^ 53 + 4)" "is_double (2 ^ 53 + 6)"
  "is_double (2 ^ 53 + 8)" "\<not> is_double (2 ^ 53 + 1)"
  by (simp_all add: is_double_def round_double_def round_nat_def shift_of.simps Let_def)

section \<open>Basic facts\<close>

lemmas demo_defs =
  demo_flight_def demo_db_def traveler_def operator_def admin_def demo_req_def
  demo_body_def no_change_def

lemma findById_Some: "findById xs i = Some x \<longleftrightarrow> i < length xs \<and> xs ! i = x"
  by (auto simp: findById_def)

lemma findById_list_update:
  "findById (list_update xs i x) j =
     (if j < length xs then Some (if j = i then x else xs ! j) else None)"
  by (simp add: findById_def)

lemma valid_flight_seats: "valid_flight fl \<Longrightarrow> is_double a \<Longrightarrow> valid_flight (fl\<lparr>availableSeats := a\<rparr>)"
  by (simp add: valid_flight_def)

lemma valid_flight_round [simp]:
  "valid_flight fl \<Longrightarrow> valid_flight (fl\<lparr>availableSeats := round_double x\<rparr>)"
  by (simp add: valid_flight_def)

lemma valid_flight_zero [simp]: "valid_flight fl \<Longrightarrow> valid_flight (fl\<lparr>availableSeats := 0\<rparr>)"
  by (simp add: valid_flight_def)

lemma valid_flight_double: "valid_flight fl \<Longrightarrow> round_double (availableSeats fl) = availableSeats fl"
  by (simp add: valid_flight_def is_double_def)

lemma valid_flight_named: "valid_flight fl \<Longrightarrow> flightName fl \<noteq> []"
  by (simp add: valid_flight_def)

lemma valid_flight_named_after:
  "valid_flight (fl\<lparr>availableSeats := a\<rparr>) \<Longrightarrow> flightName fl \<noteq> []"
  by (simp add: valid_flight_def)

lemma valid_newBooking [simp]: "valid_booking (newBooking r fl bs) = (flightName fl \<noteq> [])"
  by (simp add: valid_booking_def newBooking_def Let_def)

lemma bookTicket_success:
  assumes "findById (flights d) (req_flightId r) = Some fl" and "valid_flight fl"
    and "int (length (req_passengers r)) \<le> availableSeats fl"
  shows "bookTicket r d =
           (Inr (newBooking r fl (bookings d)),
            d\<lparr>bookings := bookings d @ [newBooking r fl (bookings d)],
              flights := list_update (flights d) (req_flightId r)
                 (fl\<lparr>availableSeats :=
                      round_double (availableSeats fl - int (length (req_passengers r)))\<rparr>)\<rparr>)"
  using assms by (simp add: bookTicket_def Let_def valid_flight_named)

lemma bookTicket_insufficient:
  assumes "findById (flights d) (req_flightId r) = Some fl"
    and "availableSeats fl < int (length (req_passengers r))"
  shows "bookTicket r d = (Inl InsufficientSeats, d)"
  using assms by (simp add: bookTicket_def Let_def)

lemma operator_auth: "flightOperatorAuth operator"
  by (simp add: flightOperatorAuth_def operator_def)

lemma newFlight_demo: "newFlight (demo_body n) = Some (demo_flight n n)"
  by (simp add: newFlight_def demo_body_def demo_flight_def)

lemma valid_demo_flight: "is_double t \<Longrightarrow> is_double a \<Longrightarrow> valid_flight (demo_flight t a)"
  by (simp add: valid_flight_def demo_flight_def)

lemma demo_flight_fields:
  "availableSeats (demo_flight t a) = a" "totalSeats (demo_flight t a) = t"
  "flightName (demo_flight t a) \<noteq> []"
  "(demo_flight t a)\<lparr>availableSeats := b\<rparr> = demo_flight t b"
  by (simp_all add: demo_flight_def)

lemma demo_req_fields:
  "req_flightId (demo_req n c) = 0" "length (req_passengers (demo_req n c)) = n"
  "req_seatClass (demo_req n c) = c"
  by (simp_all add: demo_req_def)

lemma addFlight_demo:
  assumes "is_double n"
  shows "addFlight operator (demo_body n) empty_db = (Inr (demo_flight n n), demo_db n n)"
  using valid_demo_flight[OF assms assms]
  by (simp add: addFlight_def operator_auth newFlight_demo empty_db_def demo_db_def)

lemma bookTicket_demo:
  assumes "int n \<le> a" and "is_double t" and "is_double a"
  shows "bookTicket (demo_req n c) (demo_db t a) =
           (Inr (newBooking (demo_req n c) (demo_flight t a) []),
            \<lparr>users = [], flights = [demo_flight t (round_double (a - int n))],
             bookings = [newBooking (demo_req n c) (demo_flight t a) []]\<rparr>)"
proof -
  have f: "findById (flights (demo_db t a)) (req_flightId (demo_req n c)) = Some (demo_flight t a)"
    by (simp add: findById_def demo_db_def demo_req_fields)
  have le: "int (length (req_passengers (demo_req n c))) \<le> availableSeats (demo_flight t a)"
    using assms(1) by (simp add: demo_req_fields demo_flight_fields)
  show ?thesis
    by (simp only: bookTicket_success[OF f valid_demo_flight[OF assms(2,3)] le])
       (simp add: demo_db_def demo_req_fields demo_flight_fields)
qed

lemma cancelTicket_demo:
  assumes "is_double t" and "is_double a"
  shows "cancelTicket traveler 0
           \<lparr>users = [], flights = [demo_flight t a],
            bookings = [newBooking (demo_req n c) (demo_flight t' a') []]\<rparr> =
           (Inr ((newBooking (demo_req n c) (demo_flight t' a') [])\<lparr>bookingStatus := ''cancelled''\<rparr>),
            \<lparr>users = [], flights = [demo_flight t (round_double (a + int n))],
             bookings = [(newBooking (demo_req n c) (demo_flight t' a') [])
                           \<lparr>bookingStatus := ''cancelled''\<rparr>]\<rparr>)"
proof -
  let ?b = "newBooking (demo_req n c) (demo_flight t' a') []"
  have b: "user ?b = c_id traveler" "bookingStatus ?b \<noteq> ''cancelled''" "flight ?b = 0"
    "length (passengers ?b) = n" "bk_flightName ?b \<noteq> []"
    by (simp_all add: newBooking_def Let_def demo_req_def demo_flight_fields)
  have v: "valid_flight ((demo_flight t a)\<lparr>availableSeats := round_double (a + int n)\<rparr>)"
    by (rule valid_flight_round[OF valid_demo_flight[OF assms]])
  show ?thesis
    using b v
    by (simp add: cancelTicket_def findById_def Let_def valid_booking_def demo_flight_fields)
qed

section \<open>Booking at the capacity limit\<close>

text \<open>
  Claim C4. On a flight with \<open>availableSeats = n\<close>, a booking for \<open>n\<close> passengers succeeds
  and leaves \<open>availableSeats = 0\<close>; a booking for \<open>n + 1\<close> passengers is answered with
  \<open>InsufficientSeats\<close> and the store (flights and bookings) is what it was. The flight is a
  stored one, so it satisfies its schema.
\<close>

theorem book_exact_capacity:
  assumes "findById (flights d) fid = Some fl" and "valid_flight fl"
    and "availableSeats fl = int n"
    and "req_flightId r = fid" and "length (req_passengers r) = n"
    and "req_flightId r' = fid" and "length (req_passengers r') = n + 1"
  shows "fst (bookTicket r d) = Inr (newBooking r fl (bookings d)) \<and>
         findById (flights (snd (bookTicket r d))) fid = Some (fl\<lparr>availableSeats := 0\<rparr>) \<and>
         bookTicket r' d = (Inl InsufficientSeats, d)"
proof -
  have "bookTicket r' d = (Inl InsufficientSeats, d)"
    using assms by (intro bookTicket_insufficient[where fl = fl]) auto
  moreover have "int (length (req_passengers r)) \<le> availableSeats fl"
    using assms by simp
  note bookTicket_success[OF _ assms(2) this, of d]
  ultimately show ?thesis
    using assms by (simp add: findById_list_update findById_Some)
qed

theorem book_exact_capacity_witness:
  "fst (bookTicket (demo_req 3 ''economy'') (demo_db 10 3)) =
     Inr (newBooking (demo_req 3 ''economy'') (demo_flight 10 3) []) \<and>
   findById (flights (snd (bookTicket (demo_req 3 ''economy'') (demo_db 10 3)))) 0 =
     Some (demo_flight 10 0) \<and>
   bookTicket (demo_req 4 ''economy'') (demo_db 10 3) = (Inl InsufficientSeats, demo_db 10 3)"
proof -
  have h1: "findById (flights (demo_db 10 3)) 0 = Some (demo_flight 10 3)"
    by (simp add: findById_def demo_defs)
  have h2: "valid_flight (demo_flight 10 3)"
    by (simp add: valid_flight_def demo_defs)
  have h3: "availableSeats (demo_flight 10 3) = int 3"
    by (simp add: demo_defs)
  have h4: "req_flightId (demo_req 3 ''economy'') = 0"
    "length (req_passengers (demo_req 3 ''economy'')) = 3"
    "req_flightId (demo_req 4 ''economy'') = 0"
    "length (req_passengers (demo_req 4 ''economy'')) = 3 + 1"
    by (simp_all add: demo_defs)
  show ?thesis
    using book_exact_capacity[OF h1 h2 h3 h4] by (simp add: demo_defs)
qed

section \<open>Booking with an empty passenger list\<close>

text \<open>
  Claim C8, as the server behaves. The route reads \<open>passengers.length\<close> and only compares
  it with \<open>availableSeats\<close>; it has no lower bound on the number of passengers. With an
  empty list on a stored flight whose \<open>availableSeats\<close> is not negative, the request is
  answered with success: a confirmed booking with no passengers, an empty \<open>seats\<close> string
  and \<open>totalPrice = 0\<close> is appended, and the flights are unchanged.
\<close>

theorem book_no_passengers:
  assumes "findById (flights d) (req_flightId r) = Some fl" and "valid_flight fl"
    and "0 \<le> availableSeats fl" and "req_passengers r = []"
  shows "bookTicket r d =
           (Inr (newBooking r fl (bookings d)),
            d\<lparr>bookings := bookings d @ [newBooking r fl (bookings d)]\<rparr>) \<and>
         passengers (newBooking r fl (bookings d)) = [] \<and>
         seats (newBooking r fl (bookings d)) = [] \<and>
         totalPrice (newBooking r fl (bookings d)) = 0 \<and>
         bookingStatus (newBooking r fl (bookings d)) = ''confirmed''"
proof -
  have "list_update (flights d) (req_flightId r) fl = flights d"
    using assms(1) by (auto simp: findById_Some)
  moreover have "fl\<lparr>availableSeats :=
                    round_double (availableSeats fl - int (length (req_passengers r)))\<rparr> = fl"
    using assms(4) valid_flight_double[OF assms(2)] by simp
  moreover have "int (length (req_passengers r)) \<le> availableSeats fl"
    using assms by simp
  note bookTicket_success[OF assms(1,2) this]
  ultimately have "bookTicket r d =
           (Inr (newBooking r fl (bookings d)),
            d\<lparr>bookings := bookings d @ [newBooking r fl (bookings d)]\<rparr>)"
    by simp
  then show ?thesis
    using assms(4) by (simp add: newBooking_def seatsAssigned_def)
qed

theorem book_no_passengers_witness:
  "bookTicket (demo_req 0 ''economy'') (demo_db 10 10) =
     (Inr (newBooking (demo_req 0 ''economy'') (demo_flight 10 10) []),
      \<lparr>users = [], flights = [demo_flight 10 10],
       bookings = [newBooking (demo_req 0 ''economy'') (demo_flight 10 10) []]\<rparr>)"
proof -
  have h1: "findById (flights (demo_db 10 10)) (req_flightId (demo_req 0 ''economy'')) =
              Some (demo_flight 10 10)"
    by (simp add: findById_def demo_defs)
  have h2: "valid_flight (demo_flight 10 10)"
    by (simp add: valid_flight_def demo_defs)
  have h3: "0 \<le> availableSeats (demo_flight 10 10)"
    by (simp add: demo_defs)
  have h4: "req_passengers (demo_req 0 ''economy'') = []"
    by (simp add: demo_defs)
  show ?thesis
    using book_no_passengers[OF h1 h2 h3 h4] by (simp add: demo_defs)
qed

text \<open>
  The claim as written (an empty passenger list is refused and no booking is created)
  fails: the answer is not an error and the bookings grow by one.
\<close>

theorem book_no_passengers_counterexample:
  "\<not> isl (fst (bookTicket (demo_req 0 ''economy'') (demo_db 10 10))) \<and>
   length (bookings (snd (bookTicket (demo_req 0 ''economy'') (demo_db 10 10)))) = 1 \<and>
   length (bookings (demo_db 10 10)) = 0"
  by (simp add: bookTicket_def findById_def Let_def valid_flight_def demo_defs)

section \<open>Cancellation\<close>

text \<open>
  Claim C5, for seat counts in the range where every whole number is a double. A
  cancellation of a confirmed booking, by its owner or an administrator and served
  without another request in between its steps, sets the status to \<open>cancelled\<close> and adds
  exactly \<open>passengers.length\<close> to the \<open>availableSeats\<close> of the flight it references,
  provided the sum is at most \<open>2^53\<close> in magnitude; a cancellation of the same booking
  served after it is answered with \<open>AlreadyCancelled\<close> and leaves the store as it is, so
  the seats are restored once.
\<close>

theorem cancel_restores_once:
  assumes "findById (bookings d) bid = Some b" and "bookingStatus b = ''confirmed''"
    and "valid_booking b"
    and "user b = c_id cl \<or> c_usertype cl = ''admin''"
    and "findById (flights d) (flight b) = Some fl" and "valid_flight fl"
    and "\<bar>availableSeats fl + int (length (passengers b))\<bar> \<le> 2 ^ 53"
    and "cancelTicket cl bid d = (res, d1)"
  shows "res = Inr (b\<lparr>bookingStatus := ''cancelled''\<rparr>) \<and>
         findById (bookings d1) bid = Some (b\<lparr>bookingStatus := ''cancelled''\<rparr>) \<and>
         findById (flights d1) (flight b) =
           Some (fl\<lparr>availableSeats := availableSeats fl + int (length (passengers b))\<rparr>) \<and>
         cancelTicket cl bid d1 = (Inl AlreadyCancelled, d1)"
proof -
  let ?b = "b\<lparr>bookingStatus := ''cancelled''\<rparr>"
  let ?fl = "fl\<lparr>availableSeats := availableSeats fl + int (length (passengers b))\<rparr>"
  have vb: "valid_booking ?b"
    using assms(3) by (simp add: valid_booking_def)
  have rd: "round_double (availableSeats fl + int (length (passengers b))) =
              availableSeats fl + int (length (passengers b))"
    by (rule round_double_safe[OF assms(7)])
  have vf: "valid_flight ?fl"
    by (rule valid_flight_seats[OF assms(6) is_double_safe[OF assms(7)]])
  have st: "bookingStatus b \<noteq> ''cancelled''"
    using assms(2) by simp
  have step: "cancelTicket cl bid d =
      (Inr ?b, d\<lparr>bookings := list_update (bookings d) bid ?b,
                  flights := list_update (flights d) (flight b) ?fl\<rparr>)"
    using assms(1,4,5) st vb vf rd by (auto simp: cancelTicket_def Let_def)
  then have d1: "d1 = d\<lparr>bookings := list_update (bookings d) bid ?b,
                  flights := list_update (flights d) (flight b) ?fl\<rparr>" and res: "res = Inr ?b"
    using assms(8) by simp_all
  have fb: "findById (bookings d1) bid = Some ?b"
    using assms(1) by (simp add: d1 findById_list_update findById_Some)
  have ff: "findById (flights d1) (flight b) = Some ?fl"
    using assms(5) by (simp add: d1 findById_list_update findById_Some)
  have again: "cancelTicket cl bid d1 = (Inl AlreadyCancelled, d1)"
    using fb assms(4) by (auto simp: cancelTicket_def)
  show ?thesis using res fb ff again by simp
qed

lemma booked_db_eq:
  "booked_db = \<lparr>users = [], flights = [demo_flight 10 7],
                bookings = [newBooking (demo_req 3 ''economy'') (demo_flight 10 10) []]\<rparr>"
  unfolding booked_db_def by (subst bookTicket_demo) simp_all

theorem cancel_restores_once_witness:
  "fst (cancelTicket traveler 0 booked_db) =
     Inr ((newBooking (demo_req 3 ''economy'') (demo_flight 10 10) [])
            \<lparr>bookingStatus := ''cancelled''\<rparr>) \<and>
   findById (flights (snd (cancelTicket traveler 0 booked_db))) 0 = Some (demo_flight 10 10) \<and>
   cancelTicket traveler 0 (snd (cancelTicket traveler 0 booked_db)) =
     (Inl AlreadyCancelled, snd (cancelTicket traveler 0 booked_db))"
proof -
  let ?b = "newBooking (demo_req 3 ''economy'') (demo_flight 10 10) []"
  have fl: "flight ?b = 0" "length (passengers ?b) = 3"
    by (simp_all add: newBooking_def Let_def demo_req_def)
  have h1: "findById (bookings booked_db) 0 = Some ?b"
    by (simp add: booked_db_eq findById_def)
  have h2: "bookingStatus ?b = ''confirmed''"
    by (simp add: newBooking_def Let_def)
  have h3: "valid_booking ?b"
    by (simp add: demo_flight_fields)
  have h4: "user ?b = c_id traveler \<or> c_usertype traveler = ''admin''"
    by (simp add: newBooking_def Let_def demo_req_def)
  have h5: "findById (flights booked_db) (flight ?b) = Some (demo_flight 10 7)"
    by (simp add: booked_db_eq findById_def fl)
  have h6: "valid_flight (demo_flight 10 7)"
    by (rule valid_demo_flight) simp_all
  have h7: "\<bar>availableSeats (demo_flight 10 7) + int (length (passengers ?b))\<bar> \<le> 2 ^ 53"
    by (simp add: fl demo_flight_fields)
  have h8: "cancelTicket traveler 0 booked_db =
             (fst (cancelTicket traveler 0 booked_db), snd (cancelTicket traveler 0 booked_db))"
    by simp
  show ?thesis
    using cancel_restores_once[OF h1 h2 h3 h4 h5 h6 h7 h8] fl by (simp add: demo_flight_fields)
qed

text \<open>
  The claim as written promises exactly \<open>passengers.length\<close> seats for every flight. The
  sum is a double, and above \<open>2^53\<close> not every whole number is one. In \<open>brim_db\<close> the
  flight has \<open>2^53\<close> seats available and a confirmed booking of one passenger; the
  cancellation succeeds and \<open>availableSeats\<close> is still \<open>2^53\<close>: no seat comes back.
\<close>

lemma brim_db_eq:
  "brim_db =
     \<lparr>users = [], flights = [demo_flight (2 ^ 53 + 2) (2 ^ 53)],
      bookings = [newBooking (demo_req 1 ''economy'') (demo_flight (2 ^ 53 + 2) (2 ^ 53 + 2)) []]\<rparr>"
proof -
  have r: "round_double (2 ^ 53 + 2 - int 1) = 2 ^ 53"
    using round_double_above_safe_range(1) by simp
  have le: "int 1 \<le> 2 ^ 53 + 2"
    by simp
  have "bookTicket (demo_req 1 ''economy'') (demo_db (2 ^ 53 + 2) (2 ^ 53 + 2)) =
          (Inr (newBooking (demo_req 1 ''economy'') (demo_flight (2 ^ 53 + 2) (2 ^ 53 + 2)) []),
           \<lparr>users = [], flights = [demo_flight (2 ^ 53 + 2) (2 ^ 53)],
            bookings = [newBooking (demo_req 1 ''economy'')
                          (demo_flight (2 ^ 53 + 2) (2 ^ 53 + 2)) []]\<rparr>)"
    using bookTicket_demo[OF le is_double_above_safe_range(1) is_double_above_safe_range(1),
        of "''economy''"]
    unfolding r .
  then show ?thesis
    unfolding brim_db_def run.simps apply_op.simps
      addFlight_demo[OF is_double_above_safe_range(1)] snd_conv
    by simp
qed

theorem cancel_restores_once_counterexample:
  "map availableSeats (flights brim_db) = [2 ^ 53] \<and>
   map bookingStatus (bookings brim_db) = [''confirmed''] \<and>
   map (\<lambda>b. length (passengers b)) (bookings brim_db) = [1] \<and>
   map_sum id bookingStatus (fst (cancelTicket traveler 0 brim_db)) = Inr ''cancelled'' \<and>
   map availableSeats (flights (snd (cancelTicket traveler 0 brim_db))) = [2 ^ 53]"
proof -
  have r: "round_double (2 ^ 53 + int 1) = 2 ^ 53"
    using round_double_above_safe_range(1) by simp
  have c: "cancelTicket traveler 0 brim_db =
      (Inr ((newBooking (demo_req 1 ''economy'') (demo_flight (2 ^ 53 + 2) (2 ^ 53 + 2)) [])
             \<lparr>bookingStatus := ''cancelled''\<rparr>),
       \<lparr>users = [], flights = [demo_flight (2 ^ 53 + 2) (2 ^ 53)],
        bookings = [(newBooking (demo_req 1 ''economy'') (demo_flight (2 ^ 53 + 2) (2 ^ 53 + 2)) [])
                      \<lparr>bookingStatus := ''cancelled''\<rparr>]\<rparr>)"
    unfolding brim_db_eq
    using cancelTicket_demo[OF is_double_above_safe_range(1) is_double_safe,
        of "2 ^ 53" 1 "''economy''" "2 ^ 53 + 2" "2 ^ 53 + 2"]
    unfolding r by simp
  show ?thesis
    unfolding c unfolding brim_db_eq
    by (simp add: demo_flight_fields demo_req_def newBooking_def Let_def)
qed

section \<open>Partial flight updates\<close>

lemma js_or_str_None [simp]: "js_or_str None y = y"
  by (simp add: js_or_str_def)

lemma js_or_num_None [simp]: "js_or_num None y = y"
  by (simp add: js_or_num_def)

lemma updateFlight_cases:
  assumes "findById (flights d) fid = Some fl"
  shows "(\<exists>e. updateFlight cl fid body d = (Inl e, d)) \<or>
         valid_flight (patched body fl) \<and>
         updateFlight cl fid body d =
           (Inr (patched body fl), d\<lparr>flights := list_update (flights d) fid (patched body fl)\<rparr>)"
proof (cases "flightOperatorAuth cl")
  case False
  then show ?thesis by (simp add: updateFlight_def)
next
  case auth: True
  show ?thesis
  proof (cases "rq_journeyDate body")
    case None
    then show ?thesis using assms auth
      by (simp add: updateFlight_def Let_def patched_def valid_flight_def)
  next
    case (Some jd)
    then show ?thesis using assms auth
      by (cases jd) (simp_all add: updateFlight_def Let_def patched_def valid_flight_def)
  qed
qed

lemma updateFlight_NotFound:
  assumes "findById (flights d) fid = None"
  shows "snd (updateFlight cl fid body d) = d"
  using assms by (simp add: updateFlight_def)

text \<open>
  Claim C9. Whatever \<open>/update-flight\<close> answers, in the flight it addresses every field
  that the request leaves out keeps its value, \<open>availableSeats\<close> keeps its value in every
  case (the route never assigns it), and nothing else in the store changes: the other
  flights, the bookings and the users are as before.
\<close>

theorem update_frame:
  assumes "findById (flights d) fid = Some fl"
  shows "map_option availableSeats (findById (flights (snd (updateFlight cl fid body d))) fid) =
           Some (availableSeats fl) \<and>
         (rq_flightName body = None \<longrightarrow>
            map_option flightName (findById (flights (snd (updateFlight cl fid body d))) fid) =
              Some (flightName fl)) \<and>
         (rq_flightId body = None \<longrightarrow>
            map_option flightId (findById (flights (snd (updateFlight cl fid body d))) fid) =
              Some (flightId fl)) \<and>
         (rq_origin body = None \<longrightarrow>
            map_option origin (findById (flights (snd (updateFlight cl fid body d))) fid) =
              Some (origin fl)) \<and>
         (rq_destination body = None \<longrightarrow>
            map_option destination (findById (flights (snd (updateFlight cl fid body d))) fid) =
              Some (destination fl)) \<and>
         (rq_departureTime body = None \<longrightarrow>
            map_option departureTime (findById (flights (snd (updateFlight cl fid body d))) fid) =
              Some (departureTime fl)) \<and>
         (rq_arrivalTime body = None \<longrightarrow>
            map_option arrivalTime (findById (flights (snd (updateFlight cl fid body d))) fid) =
              Some (arrivalTime fl)) \<and>
         (rq_basePrice body = None \<longrightarrow>
            map_option basePrice (findById (flights (snd (updateFlight cl fid body d))) fid) =
              Some (basePrice fl)) \<and>
         (rq_totalSeats body = None \<longrightarrow>
            map_option totalSeats (findById (flights (snd (updateFlight cl fid body d))) fid) =
              Some (totalSeats fl)) \<and>
         (rq_journeyDate body = None \<longrightarrow>
            map_option journeyDate (findById (flights (snd (updateFlight cl fid body d))) fid) =
              Some (journeyDate fl)) \<and>
         (other \<noteq> fid \<longrightarrow>
            findById (flights (snd (updateFlight cl fid body d))) other =
              findById (flights d) other) \<and>
         bookings (snd (updateFlight cl fid body d)) = bookings d \<and>
         users (snd (updateFlight cl fid body d)) = users d"
proof -
  from updateFlight_cases[OF assms, of cl body]
  consider (err) "snd (updateFlight cl fid body d) = d"
    | (ok) "snd (updateFlight cl fid body d) =
              d\<lparr>flights := list_update (flights d) fid (patched body fl)\<rparr>"
    by auto
  then show ?thesis
  proof cases
    case err
    then show ?thesis using assms by simp
  next
    case ok
    have here: "findById (flights (snd (updateFlight cl fid body d))) fid = Some (patched body fl)"
      using assms by (simp add: ok findById_list_update findById_Some)
    have there: "other \<noteq> fid \<longrightarrow>
        findById (flights (snd (updateFlight cl fid body d))) other = findById (flights d) other"
      by (simp add: ok findById_def)
    have rest: "bookings (snd (updateFlight cl fid body d)) = bookings d"
      "users (snd (updateFlight cl fid body d)) = users d"
      by (simp_all add: ok)
    have fields: "availableSeats (patched body fl) = availableSeats fl"
      "rq_flightName body = None \<longrightarrow> flightName (patched body fl) = flightName fl"
      "rq_flightId body = None \<longrightarrow> flightId (patched body fl) = flightId fl"
      "rq_origin body = None \<longrightarrow> origin (patched body fl) = origin fl"
      "rq_destination body = None \<longrightarrow> destination (patched body fl) = destination fl"
      "rq_departureTime body = None \<longrightarrow> departureTime (patched body fl) = departureTime fl"
      "rq_arrivalTime body = None \<longrightarrow> arrivalTime (patched body fl) = arrivalTime fl"
      "rq_basePrice body = None \<longrightarrow> basePrice (patched body fl) = basePrice fl"
      "rq_totalSeats body = None \<longrightarrow> totalSeats (patched body fl) = totalSeats fl"
      "rq_journeyDate body = None \<longrightarrow> journeyDate (patched body fl) = journeyDate fl"
      by (simp_all add: patched_def)
    show ?thesis
      unfolding here rest using there fields by simp
  qed
qed

text \<open>
  Two instances on a flight of ten seats with seven left: a request with no field at all,
  and a request that only sets \<open>totalSeats\<close> to 20, after which \<open>availableSeats\<close> is
  still 7.
\<close>

theorem update_frame_witness:
  "map_option totalSeats
     (findById (flights (snd (updateFlight operator 0 no_change (demo_db 10 7)))) 0) = Some 10 \<and>
   map_option availableSeats
     (findById (flights (snd (updateFlight operator 0 (no_change\<lparr>rq_totalSeats := Some 20\<rparr>)
                               (demo_db 10 7)))) 0) = Some 7 \<and>
   map_option basePrice
     (findById (flights (snd (updateFlight operator 0 (no_change\<lparr>rq_totalSeats := Some 20\<rparr>)
                               (demo_db 10 7)))) 0) = Some 100"
proof -
  have h: "findById (flights (demo_db 10 7)) 0 = Some (demo_flight 10 7)"
    by (simp add: findById_def demo_db_def)
  have v: "totalSeats (demo_flight 10 7) = 10" "availableSeats (demo_flight 10 7) = 7"
    "basePrice (demo_flight 10 7) = 100"
    by (simp_all add: demo_flight_def)
  have n: "rq_totalSeats no_change = None"
    "rq_basePrice (no_change\<lparr>rq_totalSeats := Some 20\<rparr>) = None"
    by (simp_all add: no_change_def)
  show ?thesis
    using update_frame[OF h, of operator no_change 0]
      update_frame[OF h, of operator "no_change\<lparr>rq_totalSeats := Some 20\<rparr>" 0]
    unfolding v by (simp only: n simp_thms)
qed

section \<open>Registration and login\<close>

lemma findOne_Nil [simp]: "findOne p [] = None"
  by (simp add: findOne_def)

text \<open>
  Claim C7, with the role names the server accepts. When neither the email nor the
  username is taken, \<open>/register\<close> answers \<open>InvalidRole\<close> and stores nothing unless the
  requested \<open>usertype\<close> is one of \<open>user\<close>, \<open>admin\<close>, \<open>flight-operator\<close>. When also the
  username, the email and the password hash are not empty, as the schema requires of a
  stored user, a \<open>flight-operator\<close> is stored with approval \<open>not-approved\<close>, a \<open>user\<close> or
  \<open>admin\<close> with approval \<open>approved\<close>, and the token carries the same approval.
\<close>

theorem register_roles:
  assumes "findOne (\<lambda>u. email u = mail) (users d) = None"
    and "findOne (\<lambda>u. username u = uname) (users d) = None"
  shows "(utype \<notin> {''user'', ''admin'', ''flight-operator''} \<longrightarrow>
            register hash uname mail utype pw d = (Inl InvalidRole, d)) \<and>
         (uname \<noteq> [] \<and> mail \<noteq> [] \<and> hash pw \<noteq> [] \<longrightarrow>
           (utype = ''flight-operator'' \<longrightarrow>
              register hash uname mail utype pw d =
                (Inr (\<lparr>c_id = length (users d), c_usertype = utype, c_approval = ''not-approved''\<rparr>,
                      \<lparr>username = uname, email = mail, usertype = utype, password = hash pw,
                       approval = ''not-approved''\<rparr>),
                 d\<lparr>users := users d @ [\<lparr>username = uname, email = mail, usertype = utype,
                       password = hash pw, approval = ''not-approved''\<rparr>]\<rparr>)) \<and>
           (utype \<in> {''user'', ''admin''} \<longrightarrow>
              register hash uname mail utype pw d =
                (Inr (\<lparr>c_id = length (users d), c_usertype = utype, c_approval = ''approved''\<rparr>,
                      \<lparr>username = uname, email = mail, usertype = utype, password = hash pw,
                       approval = ''approved''\<rparr>),
                 d\<lparr>users := users d @ [\<lparr>username = uname, email = mail, usertype = utype,
                       password = hash pw, approval = ''approved''\<rparr>]\<rparr>)))"
proof (intro conjI impI)
  assume "utype \<notin> {''user'', ''admin'', ''flight-operator''}"
  then show "register hash uname mail utype pw d = (Inl InvalidRole, d)"
    using assms by (simp add: register_def)
next
  assume "uname \<noteq> [] \<and> mail \<noteq> [] \<and> hash pw \<noteq> []" and "utype = ''flight-operator''"
  then show "register hash uname mail utype pw d =
              (Inr (\<lparr>c_id = length (users d), c_usertype = utype, c_approval = ''not-approved''\<rparr>,
                    \<lparr>username = uname, email = mail, usertype = utype, password = hash pw,
                     approval = ''not-approved''\<rparr>),
               d\<lparr>users := users d @ [\<lparr>username = uname, email = mail, usertype = utype,
                     password = hash pw, approval = ''not-approved''\<rparr>]\<rparr>)"
    using assms by (simp add: register_def valid_user_def Let_def)
next
  assume "uname \<noteq> [] \<and> mail \<noteq> [] \<and> hash pw \<noteq> []" and "utype \<in> {''user'', ''admin''}"
  then show "register hash uname mail utype pw d =
              (Inr (\<lparr>c_id = length (users d), c_usertype = utype, c_approval = ''approved''\<rparr>,
                    \<lparr>username = uname, email = mail, usertype = utype, password = hash pw,
                     approval = ''approved''\<rparr>),
               d\<lparr>users := users d @ [\<lparr>username = uname, email = mail, usertype = utype,
                     password = hash pw, approval = ''approved''\<rparr>]\<rparr>)"
    using assms by (auto simp add: register_def valid_user_def Let_def)
qed

theorem register_roles_witness:
  "register demo_hash ''asha'' ''asha@air.io'' ''pilot'' ''secret'' empty_db = (Inl InvalidRole, empty_db) \<and>
   register demo_hash ''opal'' ''opal@air.io'' ''flight-operator'' ''secret'' empty_db =
     (Inr (\<lparr>c_id = 0, c_usertype = ''flight-operator'', c_approval = ''not-approved''\<rparr>,
           \<lparr>username = ''opal'', email = ''opal@air.io'', usertype = ''flight-operator'',
            password = demo_hash ''secret'', approval = ''not-approved''\<rparr>),
      \<lparr>users = [\<lparr>username = ''opal'', email = ''opal@air.io'', usertype = ''flight-operator'',
            password = demo_hash ''secret'', approval = ''not-approved''\<rparr>], flights = [], bookings = []\<rparr>) \<and>
   register demo_hash ''asha'' ''asha@air.io'' ''user'' ''secret'' empty_db =
     (Inr (\<lparr>c_id = 0, c_usertype = ''user'', c_approval = ''approved''\<rparr>,
           \<lparr>username = ''asha'', email = ''asha@air.io'', usertype = ''user'',
            password = demo_hash ''secret'', approval = ''approved''\<rparr>),
      \<lparr>users = [\<lparr>username = ''asha'', email = ''asha@air.io'', usertype = ''user'',
            password = demo_hash ''secret'', approval = ''approved''\<rparr>], flights = [], bookings = []\<rparr>)"
proof -
  have h1: "findOne (\<lambda>u. email u = m) (users empty_db) = None" for m
    by (simp add: empty_db_def)
  have h2: "findOne (\<lambda>u. username u = n) (users empty_db) = None" for n
    by (simp add: empty_db_def)
  have h3: "demo_hash ''secret'' \<noteq> []"
    by (simp add: demo_hash_def)
  show ?thesis
    using register_roles[where mail = "''asha@air.io''" and d = empty_db and uname = "''asha''"
          and hash = demo_hash and pw = "''secret''" and utype = "''pilot''", OF h1 h2]
      register_roles[where mail = "''opal@air.io''" and d = empty_db and uname = "''opal''"
          and hash = demo_hash and pw = "''secret''" and utype = "''flight-operator''", OF h1 h2]
      register_roles[where mail = "''asha@air.io''" and d = empty_db and uname = "''asha''"
          and hash = demo_hash and pw = "''secret''" and utype = "''user''", OF h1 h2]
      h3
    by (simp add: empty_db_def)
qed

text \<open>
  The claim names the role \<open>traveler\<close>. The server's name for it is \<open>user\<close>: a
  registration as \<open>user\<close>, which is not in the claim's set, is accepted, and a registration
  as \<open>traveler\<close> is answered with \<open>InvalidRole\<close>.
\<close>

theorem register_roles_counterexample:
  "''user'' \<notin> {''traveler'', ''admin'', ''flight-operator''} \<and>
   fst (register demo_hash ''asha'' ''asha@air.io'' ''user'' ''secret'' empty_db) \<noteq> Inl InvalidRole \<and>
   ''traveler'' \<in> {''traveler'', ''admin'', ''flight-operator''} \<and>
   fst (register demo_hash ''asha'' ''asha@air.io'' ''traveler'' ''secret'' empty_db) = Inl InvalidRole"
  by (simp add: register_def empty_db_def valid_user_def demo_hash_def Let_def)

text \<open>
  Claim C6 at a rejected operator. \<open>/login\<close> refuses a flight operator only when the
  approval is exactly \<open>not-approved\<close>. After an administrator has rejected the account
  the approval is \<open>rejected\<close>, and a login with the right password is answered with a
  token whose approval is \<open>rejected\<close>, not with \<open>OperatorNotApproved\<close>.
\<close>

theorem login_rejected_operator:
  "login demo_compare ''opal@air.io'' ''secret'' rejected_db =
     Inr (\<lparr>c_id = 0, c_usertype = ''flight-operator'', c_approval = ''rejected''\<rparr>,
          \<lparr>username = ''opal'', email = ''opal@air.io'', usertype = ''flight-operator'',
           password = demo_hash ''secret'', approval = ''rejected''\<rparr>)"
  by (simp add: login_def rejected_db_def rejectOperator_def setApproval_def register_def
      empty_db_def adminAuth_def admin_def valid_user_def findById_def findOne_def
      demo_hash_def demo_compare_def Let_def)

section \<open>What each route can do to the store\<close>

lemma foldl_add_sum: "foldl (\<lambda>acc x. acc + f x) a xs = a + sum_list (map f xs)"
  by (induction xs arbitrary: a) (simp_all add: add.assoc)

lemma numBooked_spec: "numBookedSeatsInClass bs f c = spec_priorCount bs f c"
  by (simp add: numBookedSeatsInClass_def existingBookingsInClass_def spec_priorCount_def
      foldl_add_sum)

lemma spec_priorCount_weights:
  "spec_priorCount bs f c =
     sum_list (map (\<lambda>b. if flight b = f \<and> seatClass b = c then length (passengers b) else 0) bs)"
  by (induction bs) (simp_all add: spec_priorCount_def)

lemma spec_priorCount_append:
  "spec_priorCount (bs @ [b]) f c =
     spec_priorCount bs f c + (if flight b = f \<and> seatClass b = c then length (passengers b) else 0)"
  by (simp add: spec_priorCount_def)

lemma spec_priorCount_list_update:
  assumes "i < length bs" and "flight b = flight (bs ! i)" and "seatClass b = seatClass (bs ! i)"
    and "passengers b = passengers (bs ! i)"
  shows "spec_priorCount (list_update bs i b) f c = spec_priorCount bs f c"
proof -
  let ?h = "\<lambda>b. if flight b = f \<and> seatClass b = c then length (passengers b) else 0"
  have "?h b = ?h (bs ! i)"
    using assms by simp
  then have "map ?h (list_update bs i b) = list_update (map ?h bs) i (map ?h bs ! i)"
    using assms(1) by (simp only: map_update nth_map)
  also have "\<dots> = map ?h bs"
    by (rule list_update_id)
  finally show ?thesis
    by (simp only: spec_priorCount_weights)
qed

lemma upt_shift: "[k + 1..<k + n + 1] = map (\<lambda>i. k + i + 1) [0..<n]"
  by (induction n) simp_all

lemma seatsAssigned_spec: "seatsAssigned (Str p) k n = spec_codes p k n"
proof -
  have "spec_codes p k n =
          map (\<lambda>j. p @ ''-'' @ string_of_nat j) (map (\<lambda>i. k + i + 1) [0..<n])"
    unfolding spec_codes_def by (simp only: upt_shift)
  also have "\<dots> = seatsAssigned (Str p) k n"
    unfolding seatsAssigned_def by (simp add: comp_def)
  finally show ?thesis by simp
qed

lemma bookTicket_NotFound:
  assumes "findById (flights d) (req_flightId r) = None"
  shows "bookTicket r d = (Inl NotFound, d)"
  using assms by (simp add: bookTicket_def)

lemma bookTicket_invalid_booking:
  assumes "findById (flights d) (req_flightId r) = Some fl"
    and "int (length (req_passengers r)) \<le> availableSeats fl" and "flightName fl = []"
  shows "bookTicket r d = (Inl ServerError, d)"
  using assms by (simp add: bookTicket_def Let_def)

lemma valid_flight_rounded:
  "valid_flight (fl\<lparr>availableSeats := round_double x\<rparr>) = valid_flight (fl\<lparr>availableSeats := 0\<rparr>)"
  by (simp add: valid_flight_def)

lemma bookTicket_invalid_flight:
  assumes "findById (flights d) (req_flightId r) = Some fl"
    and "int (length (req_passengers r)) \<le> availableSeats fl" and "flightName fl \<noteq> []"
    and "\<not> valid_flight (fl\<lparr>availableSeats := 0\<rparr>)"
  shows "bookTicket r d =
           (Inl ServerError, d\<lparr>bookings := bookings d @ [newBooking r fl (bookings d)]\<rparr>)"
  using assms by (simp add: bookTicket_def Let_def valid_flight_rounded)

lemma bookTicket_valid_flight:
  assumes "findById (flights d) (req_flightId r) = Some fl"
    and "int (length (req_passengers r)) \<le> availableSeats fl"
    and "valid_flight (fl\<lparr>availableSeats := 0\<rparr>)"
  shows "bookTicket r d =
           (Inr (newBooking r fl (bookings d)),
            d\<lparr>bookings := bookings d @ [newBooking r fl (bookings d)],
              flights := list_update (flights d) (req_flightId r)
                 (fl\<lparr>availableSeats :=
                      round_double (availableSeats fl - int (length (req_passengers r)))\<rparr>)\<rparr>)"
  using assms valid_flight_named_after[OF assms(3)]
  by (simp add: bookTicket_def Let_def valid_flight_rounded)

lemma bookTicket_cases:
  obtains (unchanged) e where "bookTicket r d = (Inl e, d)"
  | (half) fl where "findById (flights d) (req_flightId r) = Some fl"
      "\<not> valid_flight (fl\<lparr>availableSeats := 0\<rparr>)"
      "bookTicket r d =
           (Inl ServerError, d\<lparr>bookings := bookings d @ [newBooking r fl (bookings d)]\<rparr>)"
  | (booked) fl where "findById (flights d) (req_flightId r) = Some fl"
      "valid_flight (fl\<lparr>availableSeats := 0\<rparr>)"
      "int (length (req_passengers r)) \<le> availableSeats fl"
      "bookTicket r d =
           (Inr (newBooking r fl (bookings d)),
            d\<lparr>bookings := bookings d @ [newBooking r fl (bookings d)],
              flights := list_update (flights d) (req_flightId r)
                 (fl\<lparr>availableSeats :=
                      round_double (availableSeats fl - int (length (req_passengers r)))\<rparr>)\<rparr>)"
proof (cases "findById (flights d) (req_flightId r)")
  case None
  then show ?thesis using unchanged bookTicket_NotFound by blast
next
  case (Some fl)
  show ?thesis
  proof (cases "int (length (req_passengers r)) \<le> availableSeats fl")
    case False
    then show ?thesis using unchanged bookTicket_insufficient[OF Some] by fastforce
  next
    case enough: True
    show ?thesis
    proof (cases "valid_flight (fl\<lparr>availableSeats := 0\<rparr>)")
      case True
      show ?thesis
        by (rule booked[OF Some True enough bookTicket_valid_flight[OF Some enough True]])
    next
      case False
      show ?thesis
      proof (cases "flightName fl = []")
        case True
        show ?thesis by (rule unchanged[OF bookTicket_invalid_booking[OF Some enough True]])
      next
        case named: False
        show ?thesis
          by (rule half[OF Some False bookTicket_invalid_flight[OF Some enough named False]])
      qed
    qed
  qed
qed

lemma newFlight_Some:
  assumes "newFlight body = Some fl"
  shows "availableSeats fl = totalSeats fl \<and> rq_totalSeats body = Some (totalSeats fl)"
  using assms unfolding newFlight_def
  by (auto split: option.splits jsdate.splits)

lemma addFlight_cases:
  obtains (unchanged) e where "addFlight cl body d = (Inl e, d)"
  | (added) fl where "addFlight cl body d = (Inr fl, d\<lparr>flights := flights d @ [fl]\<rparr>)"
      "valid_flight fl" "availableSeats fl = totalSeats fl" "rq_totalSeats body = Some (totalSeats fl)"
proof (cases "flightOperatorAuth cl")
  case False
  then show ?thesis using unchanged by (simp add: addFlight_def)
next
  case auth: True
  show ?thesis
  proof (cases "newFlight body")
    case None
    then show ?thesis using unchanged auth by (simp add: addFlight_def)
  next
    case (Some fl)
    then show ?thesis using unchanged added[of fl] auth newFlight_Some[OF Some]
      by (cases "valid_flight fl") (simp_all add: addFlight_def)
  qed
qed

lemma cancelTicket_cases:
  obtains (unchanged) e where "cancelTicket cl bid d = (Inl e, d)"
  | (detached) b where "findById (bookings d) bid = Some b" "bookingStatus b \<noteq> ''cancelled''"
      "findById (flights d) (flight b) = None"
      "cancelTicket cl bid d =
         (Inr (b\<lparr>bookingStatus := ''cancelled''\<rparr>),
          d\<lparr>bookings := list_update (bookings d) bid (b\<lparr>bookingStatus := ''cancelled''\<rparr>)\<rparr>)"
  | (half) b fl where "findById (bookings d) bid = Some b" "bookingStatus b \<noteq> ''cancelled''"
      "findById (flights d) (flight b) = Some fl" "\<not> valid_flight (fl\<lparr>availableSeats := 0\<rparr>)"
      "cancelTicket cl bid d =
         (Inl ServerError,
          d\<lparr>bookings := list_update (bookings d) bid (b\<lparr>bookingStatus := ''cancelled''\<rparr>)\<rparr>)"
  | (restored) b fl where "findById (bookings d) bid = Some b" "bookingStatus b \<noteq> ''cancelled''"
      "findById (flights d) (flight b) = Some fl" "valid_flight (fl\<lparr>availableSeats := 0\<rparr>)"
      "cancelTicket cl bid d =
         (Inr (b\<lparr>bookingStatus := ''cancelled''\<rparr>),
          d\<lparr>bookings := list_update (bookings d) bid (b\<lparr>bookingStatus := ''cancelled''\<rparr>),
            flights := list_update (flights d) (flight b)
              (fl\<lparr>availableSeats :=
                   round_double (availableSeats fl + int (length (passengers b)))\<rparr>)\<rparr>)"
proof (cases "findById (bookings d) bid")
  case None
  then show ?thesis using unchanged by (simp add: cancelTicket_def)
next
  case (Some b)
  show ?thesis
  proof (cases "(user b \<noteq> c_id cl \<and> c_usertype cl \<noteq> ''admin'') \<or> bookingStatus b = ''cancelled''
                 \<or> \<not> valid_booking b")
    case True
    then have "\<exists>e. cancelTicket cl bid d = (Inl e, d)"
      using Some by (auto simp add: cancelTicket_def Let_def valid_booking_def)
    then show ?thesis using unchanged by blast
  next
    case go: False
    then have vb: "valid_booking (b\<lparr>bookingStatus := ''cancelled''\<rparr>)"
      by (simp add: valid_booking_def)
    show ?thesis
    proof (cases "findById (flights d) (flight b)")
      case None
      then have "cancelTicket cl bid d =
         (Inr (b\<lparr>bookingStatus := ''cancelled''\<rparr>),
          d\<lparr>bookings := list_update (bookings d) bid (b\<lparr>bookingStatus := ''cancelled''\<rparr>)\<rparr>)"
        using Some go vb by (simp add: cancelTicket_def Let_def)
      then show ?thesis using detached Some go None by blast
    next
      case fl: (Some fl)
      show ?thesis
      proof (cases "valid_flight (fl\<lparr>availableSeats := 0\<rparr>)")
        case True
        then have "cancelTicket cl bid d =
         (Inr (b\<lparr>bookingStatus := ''cancelled''\<rparr>),
          d\<lparr>bookings := list_update (bookings d) bid (b\<lparr>bookingStatus := ''cancelled''\<rparr>),
            flights := list_update (flights d) (flight b)
              (fl\<lparr>availableSeats :=
                   round_double (availableSeats fl + int (length (passengers b)))\<rparr>)\<rparr>)"
          using Some go vb fl by (simp add: cancelTicket_def Let_def valid_flight_rounded)
        then show ?thesis using restored Some go fl True by blast
      next
        case False
        then have "cancelTicket cl bid d =
         (Inl ServerError,
          d\<lparr>bookings := list_update (bookings d) bid (b\<lparr>bookingStatus := ''cancelled''\<rparr>)\<rparr>)"
          using Some go vb fl by (simp add: cancelTicket_def Let_def valid_flight_rounded)
        then show ?thesis using half Some go fl False by blast
      qed
    qed
  qed
qed

lemma bookTicket_Inr:
  assumes "bookTicket r d = (Inr b, d1)"
  obtains fl where "findById (flights d) (req_flightId r) = Some fl"
    "valid_flight (fl\<lparr>availableSeats := 0\<rparr>)"
    "int (length (req_passengers r)) \<le> availableSeats fl"
    "b = newBooking r fl (bookings d)" "bookings d1 = bookings d @ [b]"
    "flights d1 = list_update (flights d) (req_flightId r)
         (fl\<lparr>availableSeats :=
              round_double (availableSeats fl - int (length (req_passengers r)))\<rparr>)"
  using assms by (cases r d rule: bookTicket_cases) auto

lemma updateFlight_bookings: "bookings (snd (updateFlight cl fid body d)) = bookings d"
proof (cases "findById (flights d) fid")
  case None
  then show ?thesis by (simp add: updateFlight_def)
next
  case (Some fl)
  from updateFlight_cases[OF this, of cl body] show ?thesis by auto
qed

lemma newBooking_key [simp]:
  "flight (newBooking r fl bs) = req_flightId r"
  "seatClass (newBooking r fl bs) = req_seatClass r"
  "passengers (newBooking r fl bs) = req_passengers r"
  "bookingStatus (newBooking r fl bs) = ''confirmed''"
  by (simp_all add: newBooking_def Let_def)

lemma apply_op_priorCount:
  "spec_priorCount (bookings d) f c \<le> spec_priorCount (bookings (apply_op x d)) f c"
proof (cases x)
  case (AddFlight cl body)
  then show ?thesis by (cases cl body d rule: addFlight_cases) simp_all
next
  case (UpdateFlight cl fid body)
  then show ?thesis by (simp add: updateFlight_bookings)
next
  case (BookTicket r)
  then show ?thesis
    by (cases r d rule: bookTicket_cases) (simp_all add: spec_priorCount_append)
next
  case (CancelTicket cl bid)
  then show ?thesis
    by (cases cl bid d rule: cancelTicket_cases)
       (simp_all add: spec_priorCount_list_update findById_Some)
qed

lemma run_priorCount:
  "spec_priorCount (bookings d) f c \<le> spec_priorCount (bookings (run ops d)) f c"
proof (induction ops arbitrary: d)
  case Nil
  show ?case by simp
next
  case (Cons x xs)
  have "spec_priorCount (bookings d) f c \<le> spec_priorCount (bookings (apply_op x d)) f c"
    by (rule apply_op_priorCount)
  also have "\<dots> \<le> spec_priorCount (bookings (run xs (apply_op x d))) f c"
    by (rule Cons.IH)
  finally show ?case by simp
qed

lemma seatCode_known:
  assumes "(c, p) \<in> {(''economy'', ''E''), (''premium-economy'', ''P''), (''business'', ''B''),
                     (''first-class'', ''A'')}"
  shows "seatCode c = Str p"
  using assms by (auto simp: seatCode_def)

lemma seats_newBooking:
  "seats (newBooking r fl bs) =
     join '', '' (seatsAssigned (seatCode (req_seatClass r))
        (spec_priorCount bs (req_flightId r) (req_seatClass r)) (length (req_passengers r)))"
  by (simp add: newBooking_def Let_def numBooked_spec)

section \<open>Seat codes\<close>

text \<open>
  Claim C3, for requests served one after another. A successful booking of \<open>n\<close>
  passengers in one of the four seat classes gets the codes \<open>prefix-(priorCount+1)\<close>
  through \<open>prefix-(priorCount+n)\<close>, joined by a comma and a space in the \<open>seats\<close> field,
  where the prefix is the letter of the class (E, P, B, A) and \<open>priorCount\<close> sums the
  passenger counts of all stored bookings of the flight and class, cancelled or not.
  After any further requests, each served to completion (cancellations among them), a
  later successful booking of the same flight and class starts from a \<open>priorCount\<close> that
  is at least the earlier \<open>priorCount + n\<close>: its numbers lie above all earlier ones, so no
  code is issued twice.
\<close>

theorem seat_codes_never_reused:
  assumes "(c, p) \<in> {(''economy'', ''E''), (''premium-economy'', ''P''), (''business'', ''B''),
                     (''first-class'', ''A'')}"
    and "req_flightId r = f" and "req_seatClass r = c" and "bookTicket r d = (Inr b, d1)"
    and "req_flightId r' = f" and "req_seatClass r' = c"
    and "bookTicket r' (run ops d1) = (Inr b', d2)"
  shows "seats b = join '', '' (spec_codes p (spec_priorCount (bookings d) f c)
                                  (length (req_passengers r))) \<and>
         seats b' = join '', '' (spec_codes p (spec_priorCount (bookings (run ops d1)) f c)
                                  (length (req_passengers r'))) \<and>
         spec_priorCount (bookings d) f c + length (req_passengers r)
           \<le> spec_priorCount (bookings (run ops d1)) f c"
proof -
  from bookTicket_Inr[OF assms(4)] obtain fl where
    b: "b = newBooking r fl (bookings d)" and d1: "bookings d1 = bookings d @ [b]"
    by blast
  from bookTicket_Inr[OF assms(7)] obtain fl' where
    b': "b' = newBooking r' fl' (bookings (run ops d1))"
    by blast
  have code: "seatCode c = Str p"
    by (rule seatCode_known[OF assms(1)])
  have s1: "seats b = join '', '' (spec_codes p (spec_priorCount (bookings d) f c)
                                  (length (req_passengers r)))"
    using assms(2,3) by (simp add: b seats_newBooking code seatsAssigned_spec)
  have s2: "seats b' = join '', '' (spec_codes p (spec_priorCount (bookings (run ops d1)) f c)
                                  (length (req_passengers r')))"
    using assms(5,6) by (simp add: b' seats_newBooking code seatsAssigned_spec)
  have "spec_priorCount (bookings d1) f c = spec_priorCount (bookings d) f c + length (req_passengers r)"
    using assms(2,3) by (simp add: d1 spec_priorCount_append b)
  then have "spec_priorCount (bookings d) f c + length (req_passengers r)
           \<le> spec_priorCount (bookings (run ops d1)) f c"
    using run_priorCount[of d1 f c ops] by simp
  with s1 s2 show ?thesis by simp
qed

text \<open>The scenario of the specification: E-1 and E-2, both cancelled, then E-3.\<close>

lemma seats_eval:
  "join '', '' (spec_codes ''E'' 0 2) = ''E-1, E-2''"
  "join '', '' (spec_codes ''E'' 2 1) = ''E-3''"
  by (simp_all add: spec_codes_def string_of_nat.simps digit_char_def upt_rec)

theorem seat_codes_never_reused_witness:
  "map_sum id seats (fst (bookTicket (demo_req 2 ''economy'') (demo_db 10 10))) = Inr ''E-1, E-2'' \<and>
   map_sum id seats (fst rebooked) = Inr ''E-3''"
proof -
  let ?b = "newBooking (demo_req 2 ''economy'') (demo_flight 10 10) []"
  let ?d1 = "\<lparr>users = [], flights = [demo_flight 10 8], bookings = [?b]\<rparr>"
  let ?c = "?b\<lparr>bookingStatus := ''cancelled''\<rparr>"
  let ?d2 = "\<lparr>users = [], flights = [demo_flight 10 10], bookings = [?c]\<rparr>"
  let ?b' = "newBooking (demo_req 1 ''economy'') (demo_flight 10 10) [?c]"
  have v: "valid_flight (demo_flight 10 10)"
    by (rule valid_demo_flight) simp_all
  have first: "bookTicket (demo_req 2 ''economy'') (demo_db 10 10) = (Inr ?b, ?d1)"
    using bookTicket_demo[of 2 10 10 "''economy''"] by simp
  have "cancelTicket traveler 0 ?d1 = (Inr ?c, ?d2)"
    using cancelTicket_demo[of 10 8 2 "''economy''" 10 10] by simp
  then have cancel: "run [CancelTicket traveler 0] ?d1 = ?d2"
    by simp
  have f: "findById (flights ?d2) (req_flightId (demo_req 1 ''economy'')) = Some (demo_flight 10 10)"
    by (simp add: findById_def demo_req_fields)
  have le: "int (length (req_passengers (demo_req 1 ''economy''))) \<le> availableSeats (demo_flight 10 10)"
    by (simp add: demo_req_fields demo_flight_fields)
  have second: "bookTicket (demo_req 1 ''economy'') (run [CancelTicket traveler 0] ?d1) =
      (Inr ?b', ?d2\<lparr>bookings := [?c, ?b'], flights := [demo_flight 10 9]\<rparr>)"
    unfolding cancel bookTicket_success[OF f v le]
    by (simp add: demo_req_fields demo_flight_fields)
  have k: "(''economy'', ''E'') \<in> {(''economy'', ''E''), (''premium-economy'', ''P''),
       (''business'', ''B''), (''first-class'', ''A'')}"
    by simp
  have r: "req_flightId (demo_req 2 ''economy'') = 0" "req_seatClass (demo_req 2 ''economy'') = ''economy''"
    "req_flightId (demo_req 1 ''economy'') = 0" "req_seatClass (demo_req 1 ''economy'') = ''economy''"
    "length (req_passengers (demo_req 2 ''economy'')) = 2"
    "length (req_passengers (demo_req 1 ''economy'')) = 1"
    by (simp_all add: demo_req_def)
  have p: "spec_priorCount (bookings (demo_db 10 10)) 0 ''economy'' = 0"
    "spec_priorCount (bookings (run [CancelTicket traveler 0] ?d1)) 0 ''economy'' = 2"
    unfolding cancel by (simp_all add: spec_priorCount_def demo_db_def r)
  from seat_codes_never_reused[OF k r(1,2) first r(3,4) second]
  have "seats ?b = ''E-1, E-2''" "seats ?b' = ''E-3''"
    unfolding p r seats_eval by simp_all
  then show ?thesis
    unfolding rebooked_def first snd_conv second fst_conv by simp
qed

text \<open>
  The claim as written has no condition on how the requests are served. Let two
  \<open>/book-ticket\<close> handlers, each for one economy seat on a flight with ten free seats, take
  turns at every \<open>await\<close>: both count the stored economy bookings before either has
  saved its own, so both are answered with a confirmed booking holding the code \<open>E-1\<close>.
  Both write \<open>availableSeats = 9\<close>.
\<close>

theorem seat_codes_never_reused_counterexample:
  "fst roomy_race =
     [Responded (Inr (newBooking (demo_req 1 ''economy'') (demo_flight 10 10) [])),
      Responded (Inr (newBooking ((demo_req 1 ''economy'')\<lparr>req_user := traveler\<lparr>c_id := 3\<rparr>\<rparr>)
                        (demo_flight 10 10) []))] \<and>
   map flight (bookings (snd roomy_race)) = [0, 0] \<and>
   map seatClass (bookings (snd roomy_race)) = [''economy'', ''economy''] \<and>
   map bookingStatus (bookings (snd roomy_race)) = [''confirmed'', ''confirmed''] \<and>
   map seats (bookings (snd roomy_race)) = [''E-1'', ''E-1''] \<and>
   map availableSeats (flights (snd roomy_race)) = [9]"
proof -
  let ?b1 = "newBooking (demo_req 1 ''economy'') (demo_flight 10 10) []"
  let ?b2 = "newBooking ((demo_req 1 ''economy'')\<lparr>req_user := traveler\<lparr>c_id := 3\<rparr>\<rparr>)
               (demo_flight 10 10) []"
  have v: "valid_flight (demo_flight 10 9)"
    by (rule valid_demo_flight) simp_all
  have run: "roomy_race =
     ([Responded (Inr ?b1), Responded (Inr ?b2)],
      \<lparr>users = [], flights = [demo_flight 10 9], bookings = [?b1, ?b2]\<rparr>)"
    by (simp add: roomy_race_def race_schedule_def race_handlers_def demo_db_def findById_def
        Let_def v demo_flight_fields demo_req_fields)
  have codes: "seats ?b1 = ''E-1''" "seats ?b2 = ''E-1''"
    by (simp_all add: seats_newBooking seatCode_def seatsAssigned_def spec_priorCount_def
        string_of_nat.simps digit_char_def demo_req_fields)
  show ?thesis
    unfolding run fst_conv snd_conv using codes by (simp add: demo_flight_fields demo_req_fields)
qed

section \<open>Seat classes the prefix table does not list\<close>

lemma seatsAssigned_template: "seatsAssigned v k n = spec_codes (template v) k n"
proof -
  have "spec_codes (template v) k n =
          map (\<lambda>j. template v @ ''-'' @ string_of_nat j) (map (\<lambda>i. k + i + 1) [0..<n])"
    unfolding spec_codes_def by (simp only: upt_shift)
  also have "\<dots> = seatsAssigned v k n"
    unfolding seatsAssigned_def by (simp add: comp_def)
  finally show ?thesis by simp
qed

lemma seatCode_unknown:
  assumes "c \<notin> {''economy'', ''premium-economy'', ''business'', ''first-class''}"
  shows "seatCode c = object_prototype_get c"
  using assms by (simp add: seatCode_def)

lemma object_prototype_get_Undefined:
  assumes "c \<notin> set (''__proto__'' # object_prototype_methods)"
  shows "object_prototype_get c = Undefined"
  using assms by (simp add: object_prototype_get_def object_prototype_methods_def)

text \<open>
  Claim C10, with the keys that \<open>Object.prototype\<close> answers. A booking whose \<open>seatClass\<close> is
  not one of the four listed classes is not refused for it: with enough seats on a stored
  flight it succeeds. Its codes are numbered like any other, and their prefix is what the
  template literal prints for \<open>seatCode[seatClass]\<close>: the text \<open>undefined\<close> when \<open>seatClass\<close>
  is not a property name of \<open>Object.prototype\<close>, and the printed inherited property when it
  is one (\<open>constructor\<close>, \<open>toString\<close>, \<open>__proto__\<close> and the like).
\<close>

theorem unknown_class_booking:
  assumes "req_seatClass r \<notin> {''economy'', ''premium-economy'', ''business'', ''first-class''}"
    and "findById (flights d) (req_flightId r) = Some fl" and "valid_flight fl"
    and "int (length (req_passengers r)) \<le> availableSeats fl"
  shows "fst (bookTicket r d) = Inr (newBooking r fl (bookings d)) \<and>
         seats (newBooking r fl (bookings d)) =
           join '', '' (spec_codes (template (object_prototype_get (req_seatClass r)))
                          (spec_priorCount (bookings d) (req_flightId r) (req_seatClass r))
                          (length (req_passengers r))) \<and>
         (req_seatClass r \<notin> set (''__proto__'' # object_prototype_methods) \<longrightarrow>
            seats (newBooking r fl (bookings d)) =
              join '', '' (spec_codes ''undefined''
                             (spec_priorCount (bookings d) (req_flightId r) (req_seatClass r))
                             (length (req_passengers r))))"
proof -
  have ok: "fst (bookTicket r d) = Inr (newBooking r fl (bookings d))"
    by (simp add: bookTicket_success[OF assms(2,3,4)])
  have codes: "seats (newBooking r fl (bookings d)) =
           join '', '' (spec_codes (template (object_prototype_get (req_seatClass r)))
                          (spec_priorCount (bookings d) (req_flightId r) (req_seatClass r))
                          (length (req_passengers r)))"
    by (simp add: seats_newBooking seatCode_unknown[OF assms(1)] seatsAssigned_template)
  have "template (object_prototype_get (req_seatClass r)) = ''undefined''"
    if "req_seatClass r \<notin> set (''__proto__'' # object_prototype_methods)"
    using object_prototype_get_Undefined[OF that] by simp
  with ok codes show ?thesis by simp
qed

theorem unknown_class_booking_witness:
  "fst (bookTicket (demo_req 2 ''luxury'') (demo_db 10 10)) =
     Inr (newBooking (demo_req 2 ''luxury'') (demo_flight 10 10) []) \<and>
   seats (newBooking (demo_req 2 ''luxury'') (demo_flight 10 10) []) = ''undefined-1, undefined-2''"
proof -
  have h1: "req_seatClass (demo_req 2 ''luxury'') \<notin>
              {''economy'', ''premium-economy'', ''business'', ''first-class''}"
    by (simp add: demo_req_def)
  have h2: "findById (flights (demo_db 10 10)) (req_flightId (demo_req 2 ''luxury'')) =
              Some (demo_flight 10 10)"
    by (simp add: findById_def demo_db_def demo_req_def)
  have h3: "valid_flight (demo_flight 10 10)"
    by (simp add: valid_flight_def demo_flight_def)
  have h4: "int (length (req_passengers (demo_req 2 ''luxury''))) \<le> availableSeats (demo_flight 10 10)"
    by (simp add: demo_req_def demo_flight_def)
  have h5: "req_seatClass (demo_req 2 ''luxury'') \<notin> set (''__proto__'' # object_prototype_methods)"
    by (simp add: demo_req_def object_prototype_methods_def)
  have e: "join '', '' (spec_codes ''undefined''
             (spec_priorCount [] (req_flightId (demo_req 2 ''luxury''))
                (req_seatClass (demo_req 2 ''luxury'')))
             (length (req_passengers (demo_req 2 ''luxury'')))) = ''undefined-1, undefined-2''"
    by (simp add: spec_codes_def spec_priorCount_def demo_req_def
        string_of_nat.simps digit_char_def upt_rec)
  have b: "bookings (demo_db 10 10) = []"
    by (simp add: demo_db_def)
  note w = unknown_class_booking[OF h1 h2 h3 h4, unfolded b]
  from w have "fst (bookTicket (demo_req 2 ''luxury'') (demo_db 10 10)) =
     Inr (newBooking (demo_req 2 ''luxury'') (demo_flight 10 10) [])"
    by (rule conjunct1)
  moreover from w h5 have "seats (newBooking (demo_req 2 ''luxury'') (demo_flight 10 10) []) =
      ''undefined-1, undefined-2''"
    unfolding e by blast
  ultimately show ?thesis
    by (rule conjI)
qed

text \<open>
  The claim as written gives every unlisted class the prefix \<open>undefined\<close>. For the class
  \<open>constructor\<close> the lookup finds the inherited \<open>Object\<close> function and the code is its
  printed form followed by \<open>-1\<close>.
\<close>

theorem unknown_class_booking_counterexample:
  "''constructor'' \<notin> {''economy'', ''premium-economy'', ''business'', ''first-class''} \<and>
   map_sum id seats (fst (bookTicket (demo_req 1 ''constructor'') (demo_db 10 10))) =
     Inr ''function Object() { [native code] }-1'' \<and>
   ''function Object() { [native code] }-1'' \<noteq> ''undefined-1''"
proof -
  have h2: "findById (flights (demo_db 10 10)) (req_flightId (demo_req 1 ''constructor'')) =
              Some (demo_flight 10 10)"
    by (simp add: findById_def demo_db_def demo_req_def)
  have h3: "valid_flight (demo_flight 10 10)"
    by (simp add: valid_flight_def demo_flight_def)
  have h4: "int (length (req_passengers (demo_req 1 ''constructor''))) \<le> availableSeats (demo_flight 10 10)"
    by (simp add: demo_req_def demo_flight_def)
  have "seats (newBooking (demo_req 1 ''constructor'') (demo_flight 10 10) (bookings (demo_db 10 10))) =
          ''function Object() { [native code] }-1''"
    by (simp add: newBooking_def Let_def seatCode_def object_prototype_get_def seatsAssigned_def
        numBookedSeatsInClass_def existingBookingsInClass_def demo_db_def demo_req_def
        string_of_nat.simps digit_char_def)
  moreover have "fst (bookTicket (demo_req 1 ''constructor'') (demo_db 10 10)) =
      Inr (newBooking (demo_req 1 ''constructor'') (demo_flight 10 10) (bookings (demo_db 10 10)))"
    by (simp only: bookTicket_success[OF h2 h3 h4] fst_conv)
  ultimately show ?thesis
    by simp
qed

section \<open>Seat counts stay within capacity\<close>

lemma confirmedSeats_nonneg: "0 \<le> confirmedSeats bs fid"
  unfolding confirmedSeats_def by (induction bs) simp_all

lemma confirmedSeats_append:
  "confirmedSeats (bs @ [b]) fid =
     confirmedSeats bs fid +
       (if flight b = fid \<and> bookingStatus b \<noteq> ''cancelled'' then int (length (passengers b)) else 0)"
  by (simp add: confirmedSeats_def)

lemma sum_list_update_int:
  fixes xs :: "int list"
  assumes "i < length xs"
  shows "sum_list (list_update xs i v) = sum_list xs - xs ! i + v"
  using assms
proof (induction xs arbitrary: i)
  case Nil
  then show ?case by simp
next
  case (Cons x xs)
  then show ?case by (cases i) simp_all
qed

lemma confirmedSeats_cancel:
  assumes "bid < length bs" and "bookingStatus (bs ! bid) \<noteq> ''cancelled''"
  shows "confirmedSeats (list_update bs bid ((bs ! bid)\<lparr>bookingStatus := ''cancelled''\<rparr>)) fid =
           confirmedSeats bs fid -
             (if flight (bs ! bid) = fid then int (length (passengers (bs ! bid))) else 0)"
  using assms unfolding confirmedSeats_def
  by (simp add: map_update sum_list_update_int)

lemma confirmedSeats_fresh:
  assumes "\<forall>b \<in> set bs. flight b < n"
  shows "confirmedSeats bs n = 0"
  using assms unfolding confirmedSeats_def by (induction bs) auto

lemma seats_inv_empty: "seats_inv empty_db"
  by (simp add: seats_inv_def empty_db_def)

lemma seats_inv_flight:
  assumes "seats_inv d" and "findById (flights d) fid = Some fl"
  shows "valid_flight fl" and "0 \<le> availableSeats fl"
    and "availableSeats fl + confirmedSeats (bookings d) fid \<le> totalSeats fl"
    and "availableSeats fl + confirmedSeats (bookings d) fid \<le> 2 ^ 53"
  using assms by (auto simp: seats_inv_def findById_Some)

lemma seats_inv_booking:
  assumes "seats_inv d" and "findById (bookings d) bid = Some b"
  shows "flight b < length (flights d)" and "valid_booking b"
  using assms by (auto simp: seats_inv_def findById_Some)

lemma seats_inv_addFlight:
  assumes inv: "seats_inv d" and "valid_flight fl" and "availableSeats fl = totalSeats fl"
    and "0 \<le> totalSeats fl" and "totalSeats fl \<le> 2 ^ 53"
  shows "seats_inv (d\<lparr>flights := flights d @ [fl]\<rparr>)"
proof -
  have fresh: "confirmedSeats (bookings d) (length (flights d)) = 0"
    using inv by (intro confirmedSeats_fresh) (simp add: seats_inv_def)
  have "availableSeats ((flights d @ [fl]) ! fid) + confirmedSeats (bookings d) fid
          \<le> totalSeats ((flights d @ [fl]) ! fid) \<and>
        availableSeats ((flights d @ [fl]) ! fid) + confirmedSeats (bookings d) fid \<le> 2 ^ 53"
    if "fid < Suc (length (flights d))" for fid
  proof (cases "fid < length (flights d)")
    case True
    then show ?thesis using inv by (simp add: nth_append seats_inv_def)
  next
    case False
    with that have "fid = length (flights d)" by simp
    then show ?thesis using assms(3,5) fresh by simp
  qed
  moreover have "flight b < Suc (length (flights d)) \<and> valid_booking b" if "b \<in> set (bookings d)" for b
    using inv that by (fastforce simp: seats_inv_def)
  moreover have "valid_flight x \<and> 0 \<le> availableSeats x" if "x \<in> set (flights d @ [fl])" for x
    using inv that assms(2,3,4) by (auto simp: seats_inv_def)
  ultimately show ?thesis
    unfolding seats_inv_def by simp
qed

lemma seats_inv_replace:
  assumes inv: "seats_inv d" and "findById (flights d) fid = Some fl"
    and "valid_flight fl'" and "0 \<le> availableSeats fl'"
    and "availableSeats fl' + confirmedSeats bs fid \<le> totalSeats fl'"
    and "availableSeats fl' + confirmedSeats bs fid \<le> 2 ^ 53"
    and others: "\<And>j. j \<noteq> fid \<Longrightarrow> confirmedSeats bs j = confirmedSeats (bookings d) j"
    and refs: "\<And>b. b \<in> set bs \<Longrightarrow> flight b < length (flights d) \<and> valid_booking b"
  shows "seats_inv (d\<lparr>bookings := bs, flights := list_update (flights d) fid fl'\<rparr>)"
proof -
  have "valid_flight x \<and> 0 \<le> availableSeats x" if "x \<in> set (list_update (flights d) fid fl')" for x
  proof -
    from that have "x = fl' \<or> x \<in> set (flights d)"
      using set_update_subset_insert[of "flights d" fid fl'] by auto
    then show ?thesis using inv assms(3,4) by (auto simp: seats_inv_def)
  qed
  moreover have "availableSeats (list_update (flights d) fid fl' ! j) + confirmedSeats bs j
          \<le> totalSeats (list_update (flights d) fid fl' ! j) \<and>
        availableSeats (list_update (flights d) fid fl' ! j) + confirmedSeats bs j \<le> 2 ^ 53"
    if "j < length (flights d)" for j
  proof (cases "j = fid")
    case True
    then show ?thesis using that assms(5,6) by simp
  next
    case False
    then show ?thesis using that inv others[OF False] by (simp add: seats_inv_def)
  qed
  ultimately show ?thesis
    unfolding seats_inv_def using refs by simp
qed

lemma seats_inv_apply_addFlight:
  assumes inv: "seats_inv d" and adm: "admissible (AddFlight cl body) d"
  shows "seats_inv (snd (addFlight cl body d))"
proof (cases cl body d rule: addFlight_cases)
  case (unchanged e)
  then show ?thesis using inv by simp
next
  case (added fl)
  then have "0 \<le> totalSeats fl" and "totalSeats fl \<le> 2 ^ 53" using adm by simp_all
  then show ?thesis
    using seats_inv_addFlight[OF inv added(2,3)] added(1) by simp
qed

lemma js_or_num_ge:
  assumes "case x of None \<Rightarrow> True | Some t \<Rightarrow> t = 0 \<or> y \<le> t"
  shows "y \<le> js_or_num x y"
  using assms by (auto simp: js_or_num_def split: option.splits)

lemma seats_inv_apply_updateFlight:
  assumes inv: "seats_inv d" and adm: "admissible (UpdateFlight cl fid body) d"
  shows "seats_inv (snd (updateFlight cl fid body d))"
proof (cases "findById (flights d) fid")
  case None
  then show ?thesis using inv by (simp add: updateFlight_NotFound)
next
  case (Some fl)
  from updateFlight_cases[OF Some, of cl body]
  consider (err) "snd (updateFlight cl fid body d) = d"
    | (ok) "valid_flight (patched body fl)" "snd (updateFlight cl fid body d) =
              d\<lparr>flights := list_update (flights d) fid (patched body fl)\<rparr>"
    by auto
  then show ?thesis
  proof cases
    case err
    then show ?thesis using inv by simp
  next
    case ok
    have a: "availableSeats (patched body fl) = availableSeats fl"
      by (simp add: patched_def)
    have "totalSeats fl \<le> totalSeats (patched body fl)"
      using adm Some by (simp add: patched_def js_or_num_ge)
    then have le: "availableSeats (patched body fl) + confirmedSeats (bookings d) fid
              \<le> totalSeats (patched body fl)"
      using seats_inv_flight(3)[OF inv Some] a by simp
    have safe: "availableSeats (patched body fl) + confirmedSeats (bookings d) fid \<le> 2 ^ 53"
      using seats_inv_flight(4)[OF inv Some] a by simp
    have pos: "0 \<le> availableSeats (patched body fl)"
      using seats_inv_flight(2)[OF inv Some] a by simp
    have refs: "flight b < length (flights d) \<and> valid_booking b" if "b \<in> set (bookings d)" for b
      using inv that by (simp add: seats_inv_def)
    have "seats_inv (d\<lparr>bookings := bookings d, flights := list_update (flights d) fid (patched body fl)\<rparr>)"
      by (rule seats_inv_replace[OF inv Some ok(1) pos le safe _ refs]) simp_all
    then show ?thesis by (simp add: ok(2))
  qed
qed

lemma seats_inv_apply_bookTicket:
  assumes inv: "seats_inv d"
  shows "seats_inv (snd (bookTicket r d))"
proof (cases r d rule: bookTicket_cases)
  case (unchanged e)
  then show ?thesis using inv by simp
next
  case (half fl)
  then show ?thesis using valid_flight_zero[OF seats_inv_flight(1)[OF inv half(1)]] by simp
next
  case (booked fl)
  let ?n = "int (length (req_passengers r))"
  let ?b = "newBooking r fl (bookings d)"
  let ?fl = "fl\<lparr>availableSeats := availableSeats fl - ?n\<rparr>"
  note v = seats_inv_flight(1)[OF inv booked(1)]
  have "availableSeats fl \<le> 2 ^ 53"
    using seats_inv_flight(4)[OF inv booked(1)] confirmedSeats_nonneg[of "bookings d" "req_flightId r"]
    by simp
  then have "\<bar>availableSeats fl - ?n\<bar> \<le> 2 ^ 53"
    using booked(3) by simp
  then have exact: "round_double (availableSeats fl - ?n) = availableSeats fl - ?n"
    by (rule round_double_safe)
  have le: "availableSeats ?fl + confirmedSeats (bookings d @ [?b]) (req_flightId r) \<le> totalSeats ?fl"
    using seats_inv_flight(3)[OF inv booked(1)] by (simp add: confirmedSeats_append)
  have safe: "availableSeats ?fl + confirmedSeats (bookings d @ [?b]) (req_flightId r) \<le> 2 ^ 53"
    using seats_inv_flight(4)[OF inv booked(1)] by (simp add: confirmedSeats_append)
  have pos: "0 \<le> availableSeats ?fl"
    using booked(3) by simp
  have val: "valid_flight ?fl"
    using valid_flight_round[OF v, of "availableSeats fl - ?n"] by (simp only: exact)
  have others: "confirmedSeats (bookings d @ [?b]) j = confirmedSeats (bookings d) j"
    if "j \<noteq> req_flightId r" for j
    using that by (simp add: confirmedSeats_append)
  have refs: "flight b < length (flights d) \<and> valid_booking b" if "b \<in> set (bookings d @ [?b])" for b
  proof (cases "b = ?b")
    case True
    then show ?thesis using booked(1) valid_flight_named[OF v] by (simp add: findById_Some)
  next
    case False
    then show ?thesis using inv that by (simp add: seats_inv_def)
  qed
  have "seats_inv (d\<lparr>bookings := bookings d @ [?b],
                     flights := list_update (flights d) (req_flightId r) ?fl\<rparr>)"
    by (rule seats_inv_replace[OF inv booked(1) val pos le safe others refs])
  then show ?thesis by (simp only: booked(4) snd_conv exact)
qed

lemma seats_inv_apply_cancelTicket:
  assumes inv: "seats_inv d"
  shows "seats_inv (snd (cancelTicket cl bid d))"
proof (cases cl bid d rule: cancelTicket_cases)
  case (unchanged e)
  then show ?thesis using inv by simp
next
  case (detached b)
  then show ?thesis using seats_inv_booking(1)[OF inv detached(1)] by (simp add: findById_def)
next
  case (half b fl)
  then show ?thesis using valid_flight_zero[OF seats_inv_flight(1)[OF inv half(3)]] by simp
next
  case (restored b fl)
  let ?n = "int (length (passengers b))"
  let ?b = "b\<lparr>bookingStatus := ''cancelled''\<rparr>"
  let ?bs = "list_update (bookings d) bid ?b"
  let ?fl = "fl\<lparr>availableSeats := availableSeats fl + ?n\<rparr>"
  note v = seats_inv_flight(1)[OF inv restored(3)]
  have bid: "bid < length (bookings d)" and b: "bookings d ! bid = b"
    using restored(1) by (simp_all add: findById_Some)
  have conf: "confirmedSeats ?bs j =
      confirmedSeats (bookings d) j - (if flight b = j then ?n else 0)" for j
    using confirmedSeats_cancel[OF bid, of j] restored(2) b by simp
  have held: "?n \<le> confirmedSeats (bookings d) (flight b)"
    using confirmedSeats_nonneg[of ?bs "flight b"] by (simp add: conf)
  have "\<bar>availableSeats fl + ?n\<bar> \<le> 2 ^ 53"
    using seats_inv_flight(2,4)[OF inv restored(3)] held by simp
  then have exact: "round_double (availableSeats fl + ?n) = availableSeats fl + ?n"
    by (rule round_double_safe)
  have le: "availableSeats ?fl + confirmedSeats ?bs (flight b) \<le> totalSeats ?fl"
    using seats_inv_flight(3)[OF inv restored(3)] by (simp add: conf)
  have safe: "availableSeats ?fl + confirmedSeats ?bs (flight b) \<le> 2 ^ 53"
    using seats_inv_flight(4)[OF inv restored(3)] by (simp add: conf)
  have pos: "0 \<le> availableSeats ?fl"
    using seats_inv_flight(2)[OF inv restored(3)] by simp
  have val: "valid_flight ?fl"
    using valid_flight_round[OF v, of "availableSeats fl + ?n"] by (simp only: exact)
  have others: "confirmedSeats ?bs j = confirmedSeats (bookings d) j" if "j \<noteq> flight b" for j
    using that by (simp add: conf)
  have refs: "flight x < length (flights d) \<and> valid_booking x" if "x \<in> set ?bs" for x
  proof -
    from that have "x = ?b \<or> x \<in> set (bookings d)"
      using set_update_subset_insert[of "bookings d" bid ?b] by auto
    then show ?thesis
      using inv seats_inv_booking[OF inv restored(1)] by (auto simp: seats_inv_def valid_booking_def)
  qed
  have "seats_inv (d\<lparr>bookings := ?bs, flights := list_update (flights d) (flight b) ?fl\<rparr>)"
    by (rule seats_inv_replace[OF inv restored(3) val pos le safe others refs])
  then show ?thesis by (simp only: restored(5) snd_conv exact)
qed

lemma seats_inv_apply_op:
  assumes "seats_inv d" and "admissible x d"
  shows "seats_inv (apply_op x d)"
proof (cases x)
  case (AddFlight cl body)
  then show ?thesis using assms seats_inv_apply_addFlight by simp
next
  case (UpdateFlight cl fid body)
  then show ?thesis using assms seats_inv_apply_updateFlight by simp
next
  case (BookTicket r)
  then show ?thesis using assms seats_inv_apply_bookTicket by simp
next
  case (CancelTicket cl bid)
  then show ?thesis using assms seats_inv_apply_cancelTicket by simp
qed

lemma seats_inv_run:
  assumes "seats_inv d" and "admissible_run ops d"
  shows "seats_inv (run ops d)"
  using assms
proof (induction ops arbitrary: d)
  case Nil
  then show ?case by simp
next
  case (Cons x xs)
  then show ?case by (simp add: seats_inv_apply_op)
qed

lemma patched_totalSeats:
  "t \<noteq> 0 \<Longrightarrow> patched (no_change\<lparr>rq_totalSeats := Some t\<rparr>) (demo_flight n a) = demo_flight t a"
  by (simp add: patched_def no_change_def demo_flight_def js_or_num_def)

lemma updateFlight_success:
  assumes "flightOperatorAuth cl" and "findById (flights d) fid = Some fl"
    and "rq_journeyDate body \<noteq> Some InvalidDate" and "valid_flight (patched body fl)"
  shows "updateFlight cl fid body d =
           (Inr (patched body fl), d\<lparr>flights := list_update (flights d) fid (patched body fl)\<rparr>)"
proof (cases "rq_journeyDate body")
  case None
  then show ?thesis using assms
    by (simp add: updateFlight_def Let_def patched_def valid_flight_def)
next
  case (Some jd)
  then show ?thesis using assms
    by (cases jd) (simp_all add: updateFlight_def Let_def patched_def valid_flight_def)
qed

lemma updateFlight_demo:
  assumes "t \<noteq> 0" and "is_double t" and "is_double a"
  shows "snd (updateFlight operator 0 (no_change\<lparr>rq_totalSeats := Some t\<rparr>) (demo_db n a)) = demo_db t a"
proof -
  have f: "findById (flights (demo_db n a)) 0 = Some (demo_flight n a)"
    by (simp add: findById_def demo_db_def)
  have j: "rq_journeyDate (no_change\<lparr>rq_totalSeats := Some t\<rparr>) \<noteq> Some InvalidDate"
    by (simp add: no_change_def)
  have v: "valid_flight (patched (no_change\<lparr>rq_totalSeats := Some t\<rparr>) (demo_flight n a))"
    by (simp only: patched_totalSeats[OF assms(1)] valid_demo_flight[OF assms(2,3)])
  show ?thesis
    by (simp only: updateFlight_success[OF operator_auth f j v] snd_conv patched_totalSeats[OF assms(1)])
       (simp add: demo_db_def)
qed

text \<open>
  Claim C1, for the requests that keep capacity. Starting from the empty store, after
  every sequence of \<open>addFlight\<close>, \<open>updateFlight\<close>, \<open>bookTicket\<close> and \<open>cancelTicket\<close> requests,
  served one after another, in which every added flight has a capacity that is not
  negative and at most \<open>2^53\<close>, and no update lowers \<open>totalSeats\<close>, every flight satisfies
  \<open>0 \<le> availableSeats \<le> totalSeats\<close>.
\<close>

theorem seats_within_capacity:
  assumes "admissible_run ops empty_db"
  shows "\<forall>fl \<in> set (flights (run ops empty_db)).
           0 \<le> availableSeats fl \<and> availableSeats fl \<le> totalSeats fl"
proof
  fix fl
  assume "fl \<in> set (flights (run ops empty_db))"
  then obtain fid where "fid < length (flights (run ops empty_db))"
    and "flights (run ops empty_db) ! fid = fl"
    by (auto simp: in_set_conv_nth)
  then have "findById (flights (run ops empty_db)) fid = Some fl"
    by (simp add: findById_def)
  moreover have "seats_inv (run ops empty_db)"
    by (rule seats_inv_run[OF seats_inv_empty assms])
  ultimately have "0 \<le> availableSeats fl"
    and "availableSeats fl + confirmedSeats (bookings (run ops empty_db)) fid \<le> totalSeats fl"
    using seats_inv_flight by blast+
  then show "0 \<le> availableSeats fl \<and> availableSeats fl \<le> totalSeats fl"
    using confirmedSeats_nonneg[of "bookings (run ops empty_db)" fid] by simp
qed

theorem seats_within_capacity_witness:
  "admissible_run demo_ops empty_db \<and>
   flights (run demo_ops empty_db) = [demo_flight 12 10] \<and>
   0 \<le> availableSeats (demo_flight 12 10) \<and>
   availableSeats (demo_flight 12 10) \<le> totalSeats (demo_flight 12 10)"
proof -
  let ?b = "newBooking (demo_req 3 ''economy'') (demo_flight 10 10) []"
  let ?d2 = "\<lparr>users = [], flights = [demo_flight 10 7], bookings = [?b]\<rparr>"
  let ?d3 = "\<lparr>users = [], flights = [demo_flight 10 10],
             bookings = [?b\<lparr>bookingStatus := ''cancelled''\<rparr>]\<rparr>"
  have s1: "snd (addFlight operator (demo_body 10) empty_db) = demo_db 10 10"
    by (simp add: addFlight_demo)
  have s2: "snd (bookTicket (demo_req 3 ''economy'') (demo_db 10 10)) = ?d2"
    using bookTicket_demo[of 3 10 10 "''economy''"] by simp
  have s3: "snd (cancelTicket traveler 0 ?d2) = ?d3"
    using cancelTicket_demo[of 10 7 3 "''economy''" 10 10] by simp
  have f3: "findById (flights ?d3) 0 = Some (demo_flight 10 10)"
    by (simp add: findById_def)
  have adm: "admissible_run demo_ops empty_db"
    unfolding demo_ops_def
    by (simp add: s1 s2 s3 f3) (simp_all add: findById_def demo_body_def no_change_def demo_flight_def)
  have "\<forall>fl \<in> set (flights (run demo_ops empty_db)).
      0 \<le> availableSeats fl \<and> availableSeats fl \<le> totalSeats fl"
    by (rule seats_within_capacity[OF adm])
  moreover have "flights (run demo_ops empty_db) = [demo_flight 12 10]"
  proof -
    have "snd (updateFlight operator 0 (no_change\<lparr>rq_totalSeats := Some 12\<rparr>) ?d3) =
            ?d3\<lparr>flights := [demo_flight 12 10]\<rparr>"
    proof -
      have j: "rq_journeyDate (no_change\<lparr>rq_totalSeats := Some 12\<rparr>) \<noteq> Some InvalidDate"
        by (simp add: no_change_def)
      have p: "patched (no_change\<lparr>rq_totalSeats := Some 12\<rparr>) (demo_flight 10 10) = demo_flight 12 10"
        by (rule patched_totalSeats) simp
      have v: "valid_flight (patched (no_change\<lparr>rq_totalSeats := Some 12\<rparr>) (demo_flight 10 10))"
        unfolding p by (rule valid_demo_flight) simp_all
      show ?thesis
        by (simp only: updateFlight_success[OF operator_auth f3 j v] snd_conv p) simp
    qed
    then show ?thesis
      unfolding demo_ops_def by (simp add: s1 s2 s3)
  qed
  ultimately show ?thesis
    using adm by (simp add: demo_flight_fields)
qed

text \<open>
  The claim as written covers every \<open>updateFlight\<close>. The route stores a new \<open>totalSeats\<close>
  and leaves \<open>availableSeats\<close> alone, so a flight added with ten seats and then updated to
  a capacity of five has ten seats available out of five.
\<close>

theorem seats_within_capacity_counterexample:
  "map availableSeats (flights shrunk_db) = [10] \<and> map totalSeats (flights shrunk_db) = [5] \<and>
   \<not> (10 \<le> (5::int))"
proof -
  have e: "shrunk_db = demo_db 5 10"
    by (simp add: shrunk_db_def addFlight_demo updateFlight_demo)
  show ?thesis
    unfolding e by (simp add: demo_db_def demo_flight_def)
qed

text \<open>
  The bound on the capacity of an added flight is needed as well. Above \<open>2^53\<close> only every
  second whole number is a double, and the routes' \<open>-=\<close> and \<open>+=\<close> round: on a flight added
  with \<open>2^53 + 6\<close> seats, booking three seats stores \<open>2^53 + 4\<close> for the exact \<open>2^53 + 3\<close>,
  and cancelling the booking stores \<open>2^53 + 8\<close> for the exact \<open>2^53 + 7\<close>. No update is
  involved, and the flight ends with two seats more than its capacity.
\<close>

lemma capacity_above_safe_range:
  "map totalSeats (flights (run brim_ops empty_db)) = [2 ^ 53 + 6] \<and>
   map availableSeats (flights (run brim_ops empty_db)) = [2 ^ 53 + 8] \<and>
   map bookingStatus (bookings (run brim_ops empty_db)) = [''cancelled'']"
proof -
  let ?b = "newBooking (demo_req 3 ''economy'') (demo_flight (2 ^ 53 + 6) (2 ^ 53 + 6)) []"
  let ?d2 = "\<lparr>users = [], flights = [demo_flight (2 ^ 53 + 6) (2 ^ 53 + 4)], bookings = [?b]\<rparr>"
  let ?d3 = "\<lparr>users = [], flights = [demo_flight (2 ^ 53 + 6) (2 ^ 53 + 8)],
             bookings = [?b\<lparr>bookingStatus := ''cancelled''\<rparr>]\<rparr>"
  have le: "int 3 \<le> 2 ^ 53 + 6"
    by simp
  have r1: "round_double (2 ^ 53 + 6 - int 3) = 2 ^ 53 + 4"
    using round_double_above_safe_range(2) by simp
  have r2: "round_double (2 ^ 53 + 4 + int 3) = 2 ^ 53 + 8"
    using round_double_above_safe_range(3) by simp
  have s1: "snd (addFlight operator (demo_body (2 ^ 53 + 6)) empty_db) =
              demo_db (2 ^ 53 + 6) (2 ^ 53 + 6)"
    by (simp only: addFlight_demo[OF is_double_above_safe_range(3)] snd_conv)
  have s2: "snd (bookTicket (demo_req 3 ''economy'') (demo_db (2 ^ 53 + 6) (2 ^ 53 + 6))) = ?d2"
    using bookTicket_demo[OF le is_double_above_safe_range(3) is_double_above_safe_range(3),
        of "''economy''"]
    unfolding r1 by (simp only: snd_conv)
  have s3: "snd (cancelTicket traveler 0 ?d2) = ?d3"
    using cancelTicket_demo[OF is_double_above_safe_range(3) is_double_above_safe_range(2),
        of 3 "''economy''" "2 ^ 53 + 6" "2 ^ 53 + 6"]
    unfolding r2 by (simp only: snd_conv)
  have e: "run brim_ops empty_db = ?d3"
    unfolding brim_ops_def run.simps apply_op.simps s1 s2 s3 ..
  show ?thesis
    unfolding e by (simp add: demo_flight_fields newBooking_def Let_def)
qed

section \<open>Bookings served one after another, and bookings that interleave\<close>

text \<open>A handler that is never interrupted does what \<open>bookTicket\<close> does.\<close>

lemma book_steps_sequential:
  "interleave [0, 0, 0, 0] ([AtFindFlight r], d) =
     ([Responded (fst (bookTicket r d))], snd (bookTicket r d))"
proof (cases "findById (flights d) (req_flightId r)")
  case None
  then show ?thesis by (simp add: bookTicket_NotFound)
next
  case (Some fl)
  show ?thesis
  proof (cases "int (length (req_passengers r)) \<le> availableSeats fl")
    case False
    then show ?thesis using Some by (simp add: bookTicket_insufficient[OF Some])
  next
    case enough: True
    show ?thesis
    proof (cases "flightName fl = []")
      case True
      then show ?thesis using Some enough
        by (simp add: bookTicket_invalid_booking[OF Some enough])
    next
      case named: False
      show ?thesis
      proof (cases "valid_flight (fl\<lparr>availableSeats := 0\<rparr>)")
        case False
        then show ?thesis using Some enough named
          by (simp add: bookTicket_invalid_flight[OF Some enough named] valid_flight_rounded)
      next
        case True
        have "fl = flights d ! req_flightId r" "req_flightId r < length (flights d)"
          using Some by (simp_all add: findById_Some)
        then show ?thesis using Some enough named True
          by (simp add: bookTicket_valid_flight[OF Some enough True] findById_def
              valid_flight_rounded)
      qed
    qed
  qed
qed

declare demo_flight_fields [simp] demo_req_fields [simp]

lemma digit_char_inj:
  assumes "digit_char a = digit_char b" and "a < 10" and "b < 10"
  shows "a = b"
proof -
  have "distinct ''0123456789''" by simp
  moreover have "a < length ''0123456789''" "b < length ''0123456789''"
    using assms(2,3) by simp_all
  ultimately show ?thesis
    using assms(1) unfolding digit_char_def by (simp only: nth_eq_iff_index_eq)
qed

lemma string_of_nat_not_Nil: "string_of_nat n \<noteq> []"
  by (subst string_of_nat.simps) simp

lemma string_of_nat_inj: "string_of_nat n = string_of_nat m \<Longrightarrow> n = m"
proof (induction n arbitrary: m rule: string_of_nat.induct)
  case (1 n)
  show ?case
  proof (cases "n < 10")
    case small: True
    show ?thesis
    proof (cases "m < 10")
      case True
      with small "1.prems" show ?thesis
        by (simp add: string_of_nat.simps[of n] string_of_nat.simps[of m] digit_char_inj)
    next
      case False
      with small "1.prems" show ?thesis
        using string_of_nat_not_Nil[of "m div 10"]
        by (simp add: string_of_nat.simps[of n] string_of_nat.simps[of m] Cons_eq_append_conv)
    qed
  next
    case big: False
    show ?thesis
    proof (cases "m < 10")
      case True
      with big "1.prems" show ?thesis
        using string_of_nat_not_Nil[of "n div 10"]
        by (simp add: string_of_nat.simps[of n] string_of_nat.simps[of m] append_eq_Cons_conv)
    next
      case False
      with big "1.prems" have eq: "string_of_nat (n div 10) = string_of_nat (m div 10)"
        and dig: "digit_char (n mod 10) = digit_char (m mod 10)"
        by (simp_all add: string_of_nat.simps[of n] string_of_nat.simps[of m])
      have "n div 10 = m div 10"
        using "1.IH"[OF big eq] .
      moreover have "n mod 10 = m mod 10"
        using digit_char_inj[OF dig] by simp
      ultimately show ?thesis
        by (metis div_mult_mod_eq)
    qed
  qed
qed

lemma spec_codes_one: "join sep (spec_codes p k (Suc 0)) = p @ ''-'' @ string_of_nat (Suc k)"
  unfolding spec_codes_def by simp

lemma book_seq_append:
  "book_seq (xs @ ys) d =
     (fst (book_seq xs d) @ fst (book_seq ys (snd (book_seq xs d))),
      snd (book_seq ys (snd (book_seq xs d))))"
  by (induction xs arbitrary: d) (simp_all add: split_beta)

lemma listed_prefix_inj:
  assumes "c \<in> {''economy'', ''premium-economy'', ''business'', ''first-class''}"
    and "c' \<in> {''economy'', ''premium-economy'', ''business'', ''first-class''}"
    and "template (seatCode c) @ ''-'' @ s = template (seatCode c') @ ''-'' @ s'"
  shows "c = c'"
  using assms by (auto simp: seatCode_def)

lemma distinct_map_coarser:
  assumes "distinct (map g xs)"
    and "\<And>x y. x \<in> set xs \<Longrightarrow> y \<in> set xs \<Longrightarrow> f x = f y \<Longrightarrow> g x = g y"
  shows "distinct (map f xs)"
proof -
  from assms(1) have d: "distinct xs" and i: "inj_on g (set xs)"
    by (simp_all add: distinct_map)
  have "inj_on f (set xs)"
  proof (rule inj_onI)
    fix x y assume "x \<in> set xs" "y \<in> set xs" "f x = f y"
    then show "x = y" using assms(2) i by (blast dest: inj_onD)
  qed
  then show ?thesis using d by (simp add: distinct_map)
qed

lemma book_seq_all_succeed:
  assumes "findById (flights d) fid = Some fl" and "valid_flight fl"
    and "int (length rs) \<le> availableSeats fl"
    and "\<forall>r \<in> set rs. req_flightId r = fid \<and> length (req_passengers r) = 1"
    and "availableSeats fl \<le> 2 ^ 53"
  shows "\<exists>bs. fst (book_seq rs d) = map Inr bs \<and>
           map seatClass bs = map req_seatClass rs \<and>
           (\<forall>b \<in> set bs. \<exists>m > spec_priorCount (bookings d) fid (seatClass b).
              seats b = template (seatCode (seatClass b)) @ ''-'' @ string_of_nat m) \<and>
           distinct (map (\<lambda>b. (seatClass b, seats b)) bs) \<and>
           findById (flights (snd (book_seq rs d))) fid =
             Some (fl\<lparr>availableSeats := availableSeats fl - int (length rs)\<rparr>)"
  using assms
proof (induction rs arbitrary: d fl)
  case Nil
  then show ?case by simp
next
  case (Cons r rs)
  let ?b = "newBooking r fl (bookings d)"
  let ?fl = "fl\<lparr>availableSeats := availableSeats fl - 1\<rparr>"
  let ?d = "d\<lparr>bookings := bookings d @ [?b], flights := list_update (flights d) fid ?fl\<rparr>"
  let ?c = "req_seatClass r"
  let ?k = "spec_priorCount (bookings d) fid ?c"
  have r: "req_flightId r = fid" "length (req_passengers r) = 1"
    using Cons.prems(4) by simp_all
  have f: "findById (flights d) (req_flightId r) = Some fl"
    using Cons.prems(1) r by simp
  have exact: "round_double (availableSeats fl - 1) = availableSeats fl - 1"
    using Cons.prems(3,5) by (intro round_double_safe) simp
  have "int (length (req_passengers r)) \<le> availableSeats fl"
    using Cons.prems(3) r by simp
  from bookTicket_success[OF f Cons.prems(2) this]
  have step: "bookTicket r d = (Inr ?b, ?d)"
    using r exact by simp
  have f1: "findById (flights ?d) fid = Some ?fl"
    using Cons.prems(1) by (simp add: findById_list_update findById_Some)
  have v1: "valid_flight ?fl"
    using valid_flight_round[OF Cons.prems(2), of "availableSeats fl - 1"] by (simp only: exact)
  have b1: "availableSeats ?fl \<le> 2 ^ 53"
    using Cons.prems(5) by simp
  have a1: "int (length rs) \<le> availableSeats ?fl"
    using Cons.prems(3) by simp
  have rest: "\<forall>r \<in> set rs. req_flightId r = fid \<and> length (req_passengers r) = 1"
    using Cons.prems(4) by simp
  have k1: "spec_priorCount (bookings ?d) fid c = spec_priorCount (bookings d) fid c + (if c = ?c then 1 else 0)" for c
    using r by (simp add: spec_priorCount_append)
  from Cons.IH[OF f1 v1 a1 rest b1] obtain bs where
    bs: "fst (book_seq rs ?d) = map Inr bs"
    and cls: "map seatClass bs = map req_seatClass rs"
    and form: "\<forall>b \<in> set bs. \<exists>m > spec_priorCount (bookings ?d) fid (seatClass b).
              seats b = template (seatCode (seatClass b)) @ ''-'' @ string_of_nat m"
    and dis: "distinct (map (\<lambda>b. (seatClass b, seats b)) bs)"
    and fin: "findById (flights (snd (book_seq rs ?d))) fid =
                Some (?fl\<lparr>availableSeats := availableSeats ?fl - int (length rs)\<rparr>)"
    by blast
  have sb: "seats ?b = template (seatCode ?c) @ ''-'' @ string_of_nat (Suc ?k)"
    using r by (simp add: seats_newBooking seatsAssigned_template spec_codes_one)
  have res: "fst (book_seq (r # rs) d) = map Inr (?b # bs)"
    by (simp add: step bs split_beta)
  have cls': "map seatClass (?b # bs) = map req_seatClass (r # rs)"
    by (simp add: cls)
  have form': "\<exists>m > spec_priorCount (bookings d) fid (seatClass b).
              seats b = template (seatCode (seatClass b)) @ ''-'' @ string_of_nat m"
    if "b \<in> set (?b # bs)" for b
  proof (cases "b = ?b")
    case True
    then show ?thesis using sb by auto
  next
    case False
    with that form obtain m where "m > spec_priorCount (bookings ?d) fid (seatClass b)"
      and "seats b = template (seatCode (seatClass b)) @ ''-'' @ string_of_nat m"
      by auto
    then show ?thesis unfolding k1 by (intro exI[of _ m]) simp
  qed
  have fresh: "(seatClass ?b, seats ?b) \<notin> set (map (\<lambda>b. (seatClass b, seats b)) bs)"
  proof
    assume "(seatClass ?b, seats ?b) \<in> set (map (\<lambda>b. (seatClass b, seats b)) bs)"
    then obtain b where b: "b \<in> set bs" "seatClass b = ?c" "seats b = seats ?b"
      by auto
    with form obtain m where "m > spec_priorCount (bookings ?d) fid ?c"
      and "seats b = template (seatCode ?c) @ ''-'' @ string_of_nat m"
      by auto
    then have "Suc ?k < m" and "string_of_nat m = string_of_nat (Suc ?k)"
      using b(3) sb unfolding k1 by simp_all
    then show False
      using string_of_nat_inj[of m "Suc ?k"] by simp
  qed
  have dis': "distinct (map (\<lambda>b. (seatClass b, seats b)) (?b # bs))"
    using dis fresh by simp
  have fin': "findById (flights (snd (book_seq (r # rs) d))) fid =
             Some (fl\<lparr>availableSeats := availableSeats fl - int (length (r # rs))\<rparr>)"
    by (simp add: step split_beta fin algebra_simps)
  show ?case
    using res cls' form' dis' fin' by blast
qed

text \<open>
  Claim C2, for calls that do not interleave. When \<open>N\<close> \<open>bookTicket\<close> calls, with
  \<open>1 \<le> N \<le> 2^53 + 1\<close>, each for one seat, are served one after another against a stored
  flight with \<open>availableSeats = N - 1\<close>, the first \<open>N - 1\<close> succeed and the last is answered
  with \<open>InsufficientSeats\<close>, the flight ends with \<open>availableSeats = 0\<close>, and no two
  successful bookings of the same seat class get the same seat code; when every call
  names one of the four listed classes, no two successful bookings get the same seat
  code at all.
\<close>

theorem sequential_bookings:
  assumes "findById (flights d) fid = Some fl" and "valid_flight fl"
    and "rs \<noteq> []" and "availableSeats fl = int (length rs) - 1"
    and "\<forall>r \<in> set rs. req_flightId r = fid \<and> length (req_passengers r) = 1"
    and "int (length rs) \<le> 2 ^ 53 + 1"
  shows "\<exists>bs. fst (book_seq rs d) = map Inr bs @ [Inl InsufficientSeats] \<and>
           length bs = length rs - 1 \<and>
           distinct (map (\<lambda>b. (seatClass b, seats b)) bs) \<and>
           ((\<forall>r \<in> set rs. req_seatClass r \<in>
                {''economy'', ''premium-economy'', ''business'', ''first-class''}) \<longrightarrow>
              distinct (map seats bs)) \<and>
           map_option availableSeats (findById (flights (snd (book_seq rs d))) fid) = Some 0"
proof -
  let ?listed = "{''economy'', ''premium-economy'', ''business'', ''first-class''}"
  from assms(3) obtain rs' r where rs: "rs = rs' @ [r]"
    by (metis rev_exhaust)
  have r: "req_flightId r = fid" "length (req_passengers r) = 1"
    using assms(5) rs by simp_all
  have rest: "\<forall>r \<in> set rs'. req_flightId r = fid \<and> length (req_passengers r) = 1"
    using assms(5) rs by simp
  have a: "int (length rs') \<le> availableSeats fl"
    using assms(4) rs by simp
  let ?d = "snd (book_seq rs' d)"
  have safe: "availableSeats fl \<le> 2 ^ 53"
    using assms(4,6) by simp
  from book_seq_all_succeed[OF assms(1,2) a rest safe] obtain bs where
    bs: "fst (book_seq rs' d) = map Inr bs"
    and cls: "map seatClass bs = map req_seatClass rs'"
    and form: "\<forall>b \<in> set bs. \<exists>m > spec_priorCount (bookings d) fid (seatClass b).
              seats b = template (seatCode (seatClass b)) @ ''-'' @ string_of_nat m"
    and dis: "distinct (map (\<lambda>b. (seatClass b, seats b)) bs)"
    and fin: "findById (flights ?d) fid =
                Some (fl\<lparr>availableSeats := availableSeats fl - int (length rs')\<rparr>)"
    by blast
  have zero: "fl\<lparr>availableSeats := availableSeats fl - int (length rs')\<rparr> = fl\<lparr>availableSeats := 0\<rparr>"
    using assms(4) rs by simp
  have f: "findById (flights ?d) (req_flightId r) = Some (fl\<lparr>availableSeats := 0\<rparr>)"
    using fin zero r by simp
  have last: "bookTicket r ?d = (Inl InsufficientSeats, ?d)"
    by (rule bookTicket_insufficient[OF f]) (simp add: r)
  have res: "fst (book_seq rs d) = map Inr bs @ [Inl InsufficientSeats]"
    unfolding rs by (simp add: book_seq_append bs last)
  have st: "snd (book_seq rs d) = ?d"
    unfolding rs by (simp add: book_seq_append last)
  have "length (map seatClass bs) = length rs'"
    unfolding cls by simp
  then have len: "length bs = length rs - 1"
    using rs by simp
  have all: "distinct (map seats bs)" if listed: "\<forall>r \<in> set rs. req_seatClass r \<in> ?listed"
  proof (rule distinct_map_coarser[OF dis])
    fix x y assume xy: "x \<in> set bs" "y \<in> set bs" "seats x = seats y"
    have "set (map seatClass bs) \<subseteq> ?listed"
      unfolding cls using listed rs by auto
    then have "seatClass x \<in> ?listed" "seatClass y \<in> ?listed"
      using xy(1,2) by auto
    moreover from form xy obtain m n where
      "template (seatCode (seatClass x)) @ ''-'' @ string_of_nat m =
       template (seatCode (seatClass y)) @ ''-'' @ string_of_nat n"
      by metis
    ultimately have "seatClass x = seatClass y"
      by (rule listed_prefix_inj)
    then show "(seatClass x, seats x) = (seatClass y, seats y)"
      using xy(3) by simp
  qed
  have "map_option availableSeats (findById (flights (snd (book_seq rs d))) fid) = Some 0"
    using f r by (simp add: st)
  then show ?thesis
    using res len dis all by blast
qed

theorem sequential_bookings_witness:
  "map isl (fst (book_seq demo_calls (demo_db 10 2))) = [False, False, True] \<and>
   fst (book_seq demo_calls (demo_db 10 2)) ! 2 = Inl InsufficientSeats \<and>
   distinct (map (map_sum id seats) (fst (book_seq demo_calls (demo_db 10 2)))) \<and>
   map_option availableSeats (findById (flights (snd (book_seq demo_calls (demo_db 10 2)))) 0) =
     Some 0"
proof -
  have h1: "findById (flights (demo_db 10 2)) 0 = Some (demo_flight 10 2)"
    by (simp add: findById_def demo_db_def)
  have h3: "demo_calls \<noteq> []"
    by (simp add: demo_calls_def)
  have h4: "availableSeats (demo_flight 10 2) = int (length demo_calls) - 1"
    by (simp add: demo_calls_def)
  have h5: "\<forall>r \<in> set demo_calls. req_flightId r = 0 \<and> length (req_passengers r) = 1"
    by (simp add: demo_calls_def demo_req_def)
  have h6: "\<forall>r \<in> set demo_calls. req_seatClass r \<in>
                {''economy'', ''premium-economy'', ''business'', ''first-class''}"
    by (simp add: demo_calls_def demo_req_def)
  have n: "length demo_calls - 1 = Suc (Suc 0)"
    by (simp add: demo_calls_def)
  have h2: "valid_flight (demo_flight 10 2)"
    by (rule valid_demo_flight) simp_all
  have h7: "int (length demo_calls) \<le> 2 ^ 53 + 1"
    by (simp add: demo_calls_def)
  from sequential_bookings[OF h1 h2 h3 h4 h5 h7] h6 obtain bs where
    res: "fst (book_seq demo_calls (demo_db 10 2)) = map Inr bs @ [Inl InsufficientSeats]"
    and len: "length bs = Suc (Suc 0)"
    and dis: "distinct (map seats bs)"
    and fin: "map_option availableSeats
        (findById (flights (snd (book_seq demo_calls (demo_db 10 2)))) 0) = Some 0"
    unfolding n by blast
  from len obtain b1 b2 where bs: "bs = [b1, b2]"
    by (auto simp: length_Suc_conv)
  show ?thesis
    using dis fin unfolding res bs by simp
qed

text \<open>
  Two calls for classes the prefix table does not list both get the code \<open>undefined-1\<close>,
  each being first in its own class; hence the condition on the classes above.
\<close>

lemma undefined_twice:
  "map (map_sum id seats)
     (fst (book_seq [demo_req 1 ''luxury'', demo_req 1 ''vip'', demo_req 1 ''luxury'']
             (demo_db 10 2))) =
     [Inr ''undefined-1'', Inr ''undefined-1'', Inl InsufficientSeats]"
proof -
  let ?b1 = "newBooking (demo_req 1 ''luxury'') (demo_flight 10 2) []"
  let ?d1 = "\<lparr>users = [], flights = [demo_flight 10 1], bookings = [?b1]\<rparr>"
  let ?b2 = "newBooking (demo_req 1 ''vip'') (demo_flight 10 1) [?b1]"
  let ?d2 = "\<lparr>users = [], flights = [demo_flight 10 0], bookings = [?b1, ?b2]\<rparr>"
  have s1: "bookTicket (demo_req 1 ''luxury'') (demo_db 10 2) = (Inr ?b1, ?d1)"
    using bookTicket_demo[of 1 2 10 "''luxury''"] by simp
  have f1: "findById (flights ?d1) (req_flightId (demo_req 1 ''vip'')) = Some (demo_flight 10 1)"
    by (simp add: findById_def)
  have s2: "bookTicket (demo_req 1 ''vip'') ?d1 = (Inr ?b2, ?d2)"
    by (subst bookTicket_success[OF f1 valid_demo_flight]) simp_all
  have f2: "findById (flights ?d2) (req_flightId (demo_req 1 ''luxury'')) = Some (demo_flight 10 0)"
    by (simp add: findById_def)
  have s3: "bookTicket (demo_req 1 ''luxury'') ?d2 = (Inl InsufficientSeats, ?d2)"
    by (rule bookTicket_insufficient[OF f2]) simp
  have c1: "seats ?b1 = ''undefined-1''"
    by (simp add: seats_newBooking seatCode_def object_prototype_get_def
        object_prototype_methods_def seatsAssigned_def spec_priorCount_def
        string_of_nat.simps digit_char_def)
  have c2: "seats ?b2 = ''undefined-1''"
    by (simp add: seats_newBooking seatCode_def object_prototype_get_def
        object_prototype_methods_def seatsAssigned_def spec_priorCount_def
        string_of_nat.simps digit_char_def)
  show ?thesis
    unfolding book_seq.simps s1 s2 s3 prod.case fst_conv list.map map_sum.simps c1 c2
    by simp
qed

text \<open>
  The claim as written is about concurrent calls. With \<open>N = 2\<close> and one seat left, let the
  two handlers take turns at every \<open>await\<close>: both load the flight while it still has one
  seat, both pass the availability check, both count no earlier booking, both save a
  booking with the code \<open>E-1\<close>, and both write \<open>availableSeats = 0\<close>. Two calls succeed, none
  is answered with \<open>InsufficientSeats\<close>, and the two bookings share their seat code.
\<close>

theorem concurrent_bookings_counterexample:
  "interleave race_schedule (race_handlers, demo_db 10 1) =
     ([Responded (Inr (newBooking (demo_req 1 ''economy'') (demo_flight 10 1) [])),
       Responded (Inr (newBooking ((demo_req 1 ''economy'')\<lparr>req_user := traveler\<lparr>c_id := 3\<rparr>\<rparr>)
                         (demo_flight 10 1) []))],
      \<lparr>users = [], flights = [demo_flight 10 0],
       bookings = [newBooking (demo_req 1 ''economy'') (demo_flight 10 1) [],
                   newBooking ((demo_req 1 ''economy'')\<lparr>req_user := traveler\<lparr>c_id := 3\<rparr>\<rparr>)
                     (demo_flight 10 1) []]\<rparr>) \<and>
   seats (newBooking (demo_req 1 ''economy'') (demo_flight 10 1) []) = ''E-1'' \<and>
   seats (newBooking ((demo_req 1 ''economy'')\<lparr>req_user := traveler\<lparr>c_id := 3\<rparr>\<rparr>)
            (demo_flight 10 1) []) = ''E-1''"
proof -
  have run: "interleave race_schedule (race_handlers, demo_db 10 1) =
     ([Responded (Inr (newBooking (demo_req 1 ''economy'') (demo_flight 10 1) [])),
       Responded (Inr (newBooking ((demo_req 1 ''economy'')\<lparr>req_user := traveler\<lparr>c_id := 3\<rparr>\<rparr>)
                         (demo_flight 10 1) []))],
      \<lparr>users = [], flights = [demo_flight 10 0],
       bookings = [newBooking (demo_req 1 ''economy'') (demo_flight 10 1) [],
                   newBooking ((demo_req 1 ''economy'')\<lparr>req_user := traveler\<lparr>c_id := 3\<rparr>\<rparr>)
                     (demo_flight 10 1) []]\<rparr>)"
    by (simp add: race_schedule_def race_handlers_def demo_db_def findById_def Let_def
        valid_demo_flight)
  have codes: "seats (newBooking (demo_req 1 ''economy'') (demo_flight 10 1) []) = ''E-1''"
    "seats (newBooking ((demo_req 1 ''economy'')\<lparr>req_user := traveler\<lparr>c_id := 3\<rparr>\<rparr>)
            (demo_flight 10 1) []) = ''E-1''"
    by (simp_all add: seats_newBooking seatCode_def seatsAssigned_def spec_priorCount_def
        string_of_nat.simps digit_char_def)
  show ?thesis
    using run codes by simp
qed

text \<open>
  The bound on \<open>N\<close> is needed. \<open>availableSeats\<close> is a double, and above \<open>2^53\<close> the handler's
  \<open>-=\<close> rounds: with \<open>N = 2^53 + 3\<close> calls against \<open>2^53 + 2\<close> free seats, the first booking
  stores \<open>2^53\<close> for the exact \<open>2^53 + 1\<close>, the next \<open>2^53\<close> calls use the seats up, and the
  last two calls are both answered with \<open>InsufficientSeats\<close>.
\<close>

lemma book_seq_none_left:
  assumes "findById (flights d) fid = Some fl" and "availableSeats fl < 1"
    and "\<forall>r \<in> set rs. req_flightId r = fid \<and> length (req_passengers r) = 1"
  shows "book_seq rs d = (map (\<lambda>r. Inl InsufficientSeats) rs, d)"
  using assms(3)
proof (induction rs)
  case Nil
  show ?case by simp
next
  case (Cons r rs)
  have f: "findById (flights d) (req_flightId r) = Some fl"
    using Cons.prems assms(1) by simp
  have "availableSeats fl < int (length (req_passengers r))"
    using Cons.prems assms(2) by simp
  from bookTicket_insufficient[OF f this] Cons.IH Cons.prems show ?case
    by simp
qed

lemma sequential_bookings_above_safe_range:
  assumes "length rs = 2 ^ 53 + 3"
    and "\<forall>r \<in> set rs. req_flightId r = 0 \<and> length (req_passengers r) = 1"
  shows "\<exists>bs. fst (book_seq rs (demo_db (2 ^ 53 + 2) (2 ^ 53 + 2))) =
           map Inr bs @ [Inl InsufficientSeats, Inl InsufficientSeats]"
proof -
  let ?d0 = "demo_db (2 ^ 53 + 2) (2 ^ 53 + 2)"
  let ?fl0 = "demo_flight (2 ^ 53 + 2) (2 ^ 53 + 2)"
  let ?fl1 = "demo_flight (2 ^ 53 + 2) (2 ^ 53)"
  from assms(1) obtain r rs' where rs: "rs = r # rs'"
    by (cases rs) simp_all
  have len': "length rs' = 2 ^ 53 + 2"
    using assms(1) rs by simp
  define xs where "xs = take (2 ^ 53) rs'"
  define ys where "ys = drop (2 ^ 53) rs'"
  have split: "rs' = xs @ ys"
    by (simp add: xs_def ys_def)
  have lx: "length xs = 2 ^ 53"
    using len' by (simp add: xs_def)
  have "length ys = 2"
    using len' by (simp add: ys_def)
  then obtain y1 y2 where ys: "ys = [y1, y2]"
    by (auto simp: length_Suc_conv numeral_2_eq_2)
  have r: "req_flightId r = 0" "length (req_passengers r) = 1"
    using assms(2) rs by simp_all
  have allx: "\<forall>r \<in> set xs. req_flightId r = 0 \<and> length (req_passengers r) = 1"
    using assms(2) rs split by simp
  have ally: "\<forall>r \<in> set ys. req_flightId r = 0 \<and> length (req_passengers r) = 1"
    using assms(2) rs split by simp
  let ?b = "newBooking r ?fl0 []"
  let ?d1 = "\<lparr>users = [], flights = [?fl1], bookings = [?b]\<rparr>"
  have f0: "findById (flights ?d0) (req_flightId r) = Some ?fl0"
    by (simp add: findById_def demo_db_def r)
  have v0: "valid_flight ?fl0"
    by (rule valid_demo_flight[OF is_double_above_safe_range(1) is_double_above_safe_range(1)])
  have le0: "int (length (req_passengers r)) \<le> availableSeats ?fl0"
    by (simp add: r)
  have rd: "round_double (availableSeats ?fl0 - int (length (req_passengers r))) = 2 ^ 53"
    using round_double_above_safe_range(1) by (simp add: r)
  have step: "bookTicket r ?d0 = (Inr ?b, ?d1)"
    unfolding bookTicket_success[OF f0 v0 le0] rd by (simp add: demo_db_def r)
  have f1: "findById (flights ?d1) 0 = Some ?fl1"
    by (simp add: findById_def)
  have v1: "valid_flight ?fl1"
    by (rule valid_demo_flight[OF is_double_above_safe_range(1)]) simp
  have a1: "int (length xs) \<le> availableSeats ?fl1"
    by (simp add: lx)
  have b1: "availableSeats ?fl1 \<le> 2 ^ 53"
    by simp
  from book_seq_all_succeed[OF f1 v1 a1 allx b1] obtain bs where
    bs: "fst (book_seq xs ?d1) = map Inr bs"
    and fin: "findById (flights (snd (book_seq xs ?d1))) 0 =
                Some (?fl1\<lparr>availableSeats := availableSeats ?fl1 - int (length xs)\<rparr>)"
    by blast
  have "availableSeats (?fl1\<lparr>availableSeats := availableSeats ?fl1 - int (length xs)\<rparr>) < 1"
    by (simp add: lx)
  from book_seq_none_left[OF fin this ally]
  have last: "fst (book_seq ys (snd (book_seq xs ?d1))) =
                [Inl InsufficientSeats, Inl InsufficientSeats]"
    by (simp add: ys)
  have "fst (book_seq (r # xs @ ys) d0) =
          Inr b # fst (book_seq xs d1) @ fst (book_seq ys (snd (book_seq xs d1)))"
    if "bookTicket r d0 = (Inr b, d1)" for d0 b d1
    by (simp add: that book_seq_append split_beta)
  from this[OF step]
  have "fst (book_seq rs ?d0) = map Inr (?b # bs) @ [Inl InsufficientSeats, Inl InsufficientSeats]"
    unfolding rs split bs last by (simp only: list.map append_Cons)
  then show ?thesis
    by (rule exI)
qed

section \<open>Cancellations that overlap\<close>

text \<open>A cancellation handler that is never interrupted does what \<open>cancelTicket\<close> does.\<close>

lemma cancel_steps_sequential:
  "interleave_cancel [0, 0, 0, 0] ([AtFindBooking cl bid], d) =
     ([Answered (fst (cancelTicket cl bid d))], snd (cancelTicket cl bid d))"
proof (cases "findById (bookings d) bid")
  case None
  then show ?thesis by (simp add: cancelTicket_def)
next
  case (Some b)
  let ?b = "b\<lparr>bookingStatus := ''cancelled''\<rparr>"
  have bid: "bid < length (bookings d)" "bookings d ! bid = b"
    using Some by (simp_all add: findById_Some)
  show ?thesis
  proof (cases "(user b \<noteq> c_id cl \<and> c_usertype cl \<noteq> ''admin'') \<or> bookingStatus b = ''cancelled''
                 \<or> \<not> valid_booking ?b")
    case True
    then show ?thesis using Some by (auto simp add: cancelTicket_def Let_def)
  next
    case go: False
    show ?thesis
    proof (cases "findById (flights d) (flight b)")
      case None
      then show ?thesis using Some go by (simp add: cancelTicket_def Let_def)
    next
      case fl: (Some fl)
      have fid: "flight b < length (flights d)" "flights d ! flight b = fl"
        using fl by (simp_all add: findById_Some)
      show ?thesis
      proof (cases "valid_flight (fl\<lparr>availableSeats := 0\<rparr>)")
        case True
        then show ?thesis using Some go fl bid fid
          by (simp add: cancelTicket_def Let_def valid_flight_rounded findById_def)
      next
        case False
        then show ?thesis using Some go fl bid
          by (simp add: cancelTicket_def Let_def valid_flight_rounded)
      qed
    qed
  qed
qed

text \<open>
  Without the condition that the first cancellation has completed, the seats of one
  booking go back twice. The traveler's two requests for the three-seat booking of
  \<open>booked_db\<close> overlap: the second handler loads the booking while it is still confirmed.
  Both are answered with the cancelled booking, and the flight of ten seats, seven of
  them free before, ends with thirteen free seats.
\<close>

lemma overlapping_cancellations:
  "map availableSeats (flights booked_db) = [7] \<and>
   map bookingStatus (bookings booked_db) = [''confirmed''] \<and>
   map length (map passengers (bookings booked_db)) = [3] \<and>
   fst cancel_twice =
     [Answered (Inr ((newBooking (demo_req 3 ''economy'') (demo_flight 10 10) [])
                       \<lparr>bookingStatus := ''cancelled''\<rparr>)),
      Answered (Inr ((newBooking (demo_req 3 ''economy'') (demo_flight 10 10) [])
                       \<lparr>bookingStatus := ''cancelled''\<rparr>))] \<and>
   map bookingStatus (bookings (snd cancel_twice)) = [''cancelled''] \<and>
   map totalSeats (flights (snd cancel_twice)) = [10] \<and>
   map availableSeats (flights (snd cancel_twice)) = [13]"
proof -
  let ?b = "newBooking (demo_req 3 ''economy'') (demo_flight 10 10) []"
  let ?c = "?b\<lparr>bookingStatus := ''cancelled''\<rparr>"
  have b: "user ?b = c_id traveler" "bookingStatus ?b = ''confirmed''" "flight ?b = 0"
    "length (passengers ?b) = 3" "bk_flightName ?b \<noteq> []"
    by (simp_all add: newBooking_def Let_def demo_req_def)
  have d: "booked_db = \<lparr>users = [], flights = [demo_flight 10 7], bookings = [?b]\<rparr>"
    using bookTicket_demo[of 3 10 10 "''economy''"] by (simp add: booked_db_def)
  have v: "valid_flight (demo_flight 10 10)" "valid_flight (demo_flight 10 13)"
    by (rule valid_demo_flight, simp, simp)+
  have run: "cancel_twice =
      ([Answered (Inr ?c), Answered (Inr ?c)],
       \<lparr>users = [], flights = [demo_flight 10 13], bookings = [?c]\<rparr>)"
    unfolding cancel_twice_def d
    using b v by (simp add: findById_def valid_booking_def)
  show ?thesis
    unfolding run d fst_conv snd_conv using b by simp
qed

end
